(* ===== verification/Go_Prelude.thy ===== *)
theory Go_Prelude
  imports Main "HOL-Library.Word" "HOL-Library.Char_ord" "HOL-Library.List_Lexorder"
begin

text \<open>
  The vocabulary every component of the model shares.

  \<^item> Go strings and byte slices are \<open>bytes\<close>, lists of 8-bit \<open>char\<close>s;
  \<^item> a Go \<open>error\<close> value is an \<open>error\<close>: the sentinels the sources compare with are
    constructors of their own, and \<open>Errorf\<close> keeps a format and the errors it wraps with
    \<open>%w\<close> (the text of the other arguments is not modelled);
  \<^item> a call that may panic or block for ever has a result of type \<open>'a go\<close>;
  \<^item> an \<open>int64\<close> is an \<open>int\<close>, with \<open>wrap64\<close> applied where the source computes
    a value that may leave the range.
\<close>

named_theorems go_simps \<open>unfolding rules of the Go result type\<close>
named_theorems read_simps \<open>what one read of a byte source does\<close>

type_synonym bytes = string

subsection \<open>Errors\<close>

datatype error =
    EOF
  | ErrUnexpectedEOF
  | ErrShortWrite
  | ErrSyntax string
  | ErrRange string
  | ErrInvalidCommand
  | ErrNotImplemented
  | ErrTxnTooBig
  | ErrReadOnlyTxn
  | BadgerKeyNotFound
  | ErrKeyNotFound
  | ErrLogNotFound
  | ErrDone
  | ErrCanceled
  | New string
  | External nat
  | Errorf string "error list"

text \<open>\<open>errors.Is(err, target)\<close> on the chain of wrapped errors.\<close>

fun errors_Is :: "error \<Rightarrow> error \<Rightarrow> bool" where
  "errors_Is (Errorf f ws) target =
     (Errorf f ws = target \<or> (\<exists>w \<in> set ws. errors_Is w target))"
| "errors_Is e target = (e = target)"

subsection \<open>Calls that may panic or block\<close>

datatype 'a go = Ret 'a | Panic string | Blocked

fun go_bind :: "'a go \<Rightarrow> ('a \<Rightarrow> 'b go) \<Rightarrow> 'b go" where
  "go_bind (Ret x) f = f x"
| "go_bind (Panic s) f = Panic s"
| "go_bind Blocked f = Blocked"

lemma go_bind_assoc [go_simps]: "go_bind (go_bind x f) g = go_bind x (\<lambda>y. go_bind (f y) g)"
  by (cases x) simp_all

lemma go_bind_Ret_iff: "go_bind x f = Ret y \<longleftrightarrow> (\<exists>z. x = Ret z \<and> f z = Ret y)"
  by (cases x) simp_all

lemma go_bind_RetE [elim]:
  assumes "go_bind x f = Ret y"
  obtains z where "x = Ret z" and "f z = Ret y"
  using assms by (auto simp: go_bind_Ret_iff)

subsection \<open>64-bit signed integers\<close>

definition wrap64 :: "int \<Rightarrow> int" where
  "wrap64 i = (i + 2 ^ 63) mod 2 ^ 64 - 2 ^ 63"

definition int64 :: "int \<Rightarrow> bool" where
  "int64 i \<longleftrightarrow> - (2 ^ 63) \<le> i \<and> i < 2 ^ 63"

lemma wrap64_id [simp]: "int64 i \<Longrightarrow> wrap64 i = i"
  by (simp add: wrap64_def int64_def)

lemma int64_wrap64 [simp, intro]: "int64 (wrap64 i)"
proof -
  have "0 \<le> (i + 2 ^ 63) mod (2 ^ 64)" and "(i + 2 ^ 63) mod (2 ^ 64) < (2 ^ 64 :: int)"
    by simp_all
  then show ?thesis by (simp add: wrap64_def int64_def)
qed

lemma int64_0 [simp]: "int64 0"
  by (simp add: int64_def)

subsection \<open>Lists\<close>

text \<open>The last \<open>n\<close> elements; \<open>buf[len(buf)-n:]\<close> of the sources.\<close>

definition lastn :: "nat \<Rightarrow> 'a list \<Rightarrow> 'a list" where
  "lastn n xs = drop (length xs - n) xs"

lemma lastn_append [simp]: "lastn (length ys) (xs @ ys) = ys"
  by (simp add: lastn_def)

lemma butlastn_append [simp]: "take (length (xs @ ys) - length ys) (xs @ ys) = xs"
  by simp

lemma lastn_eqD: "lastn (length ys) xs = ys \<Longrightarrow> xs = take (length xs - length ys) xs @ ys"
  unfolding lastn_def by (metis append_take_drop_id)

end
