(* ===== verification/Kind.thy ===== *)
theory Kind
  imports Go_Prelude
begin

text \<open>
  \<^verbatim>\<open>protocol/kind/kind.go\<close>: the indicator byte of a RESP message. A \<open>Kind\<close> is any
  byte; the named kinds are constants, \<open>Category\<close> splits the bytes into simple,
  aggregate and unknown ones, and \<open>Humanize\<close> names them.
\<close>

type_synonym Kind = char

definition EOL :: bytes where "EOL = [CHR 0x0D, CHR 0x0A]"

definition kSimpleString :: Kind where "kSimpleString = CHR ''+''"
definition kError :: Kind where "kError = CHR ''-''"
definition kInt :: Kind where "kInt = CHR '':''"
definition kBulkString :: Kind where "kBulkString = CHR ''$''"
definition kArray :: Kind where "kArray = CHR ''*''"
definition kNull :: Kind where "kNull = CHR ''_''"
definition kBool :: Kind where "kBool = CHR ''#''"
definition kDouble :: Kind where "kDouble = CHR '',''"
definition kBigNumber :: Kind where "kBigNumber = CHR ''(''"
definition kBulkError :: Kind where "kBulkError = CHR ''!''"
definition kVerbatimString :: Kind where "kVerbatimString = CHR ''=''"
definition kMap :: Kind where "kMap = CHR ''%''"
definition kAttribute :: Kind where "kAttribute = CHR 0x60"
definition kSet :: Kind where "kSet = CHR ''~''"
definition kPush :: Kind where "kPush = CHR ''>''"

lemmas kind_defs = kSimpleString_def kError_def kInt_def kBulkString_def kArray_def kNull_def
  kBool_def kDouble_def kBigNumber_def kBulkError_def kVerbatimString_def kMap_def
  kAttribute_def kSet_def kPush_def

definition CategorySimple :: int where "CategorySimple = 0"
definition CategoryAggregate :: int where "CategoryAggregate = 1"

definition Category :: "Kind \<Rightarrow> int" where
  "Category i =
     (if i \<in> {kSimpleString, kError, kInt, kNull, kBool, kDouble, kBigNumber}
      then CategorySimple
      else if i \<in> {kArray, kSet, kPush, kBulkString, kBulkError, kVerbatimString, kMap, kAttribute}
      then CategoryAggregate
      else - 1)"

lemmas category_defs = Category_def CategorySimple_def CategoryAggregate_def

lemma category_simps [simp]:
  "Category kSimpleString = CategorySimple" "Category kError = CategorySimple" "Category kInt = CategorySimple"
  "Category kNull = CategorySimple" "Category kBool = CategorySimple" "Category kDouble = CategorySimple"
  "Category kBigNumber = CategorySimple" "Category kBulkString = CategoryAggregate"
  "Category kBulkError = CategoryAggregate" "Category kVerbatimString = CategoryAggregate"
  "Category kArray = CategoryAggregate" "Category kSet = CategoryAggregate" "Category kPush = CategoryAggregate"
  "Category kMap = CategoryAggregate" "Category kAttribute = CategoryAggregate"
  by (simp_all add: category_defs kind_defs)

lemma category_distinct [simp]: "CategorySimple \<noteq> CategoryAggregate" "CategoryAggregate \<noteq> CategorySimple"
  by (simp_all add: category_defs)

definition Humanize :: "char \<Rightarrow> string" where
  "Humanize indicator =
     (if indicator = kSimpleString then ''SimpleString''
      else if indicator = kError then ''Error''
      else if indicator = kInt then ''Int''
      else if indicator = kBulkString then ''Bulk''
      else if indicator = kArray then ''Seq''
      else if indicator = kNull then ''Null''
      else if indicator = kBool then ''Bool''
      else if indicator = kDouble then ''Double''
      else if indicator = kBigNumber then ''BigNumber''
      else if indicator = kVerbatimString then ''VerbatimString''
      else if indicator = kMap then ''Assoc''
      else if indicator = kAttribute then ''Attribute''
      else if indicator = kSet then ''Set''
      else if indicator = kPush then ''Push''
      else ''Unknown'')"

definition Kind_String :: "Kind \<Rightarrow> string" where
  "Kind_String i = Humanize i"

lemma length_EOL [simp]: "length EOL = 2"
  by (simp add: EOL_def)

lemma EOL_not_Nil [simp]: "EOL \<noteq> []"
  by (simp add: EOL_def)

text \<open>The named kinds are pairwise different, so the switches of the coder are unambiguous.\<close>

definition all_kinds :: "Kind list" where
  "all_kinds = [kSimpleString, kError, kInt, kBulkString, kArray, kNull, kBool, kDouble,
     kBigNumber, kBulkError, kVerbatimString, kMap, kAttribute, kSet, kPush]"

lemma distinct_all_kinds: "distinct all_kinds"
  by (simp add: all_kinds_def kind_defs)

lemma Category_range: "Category k \<in> {CategorySimple, CategoryAggregate, - 1}"
  by (simp add: category_defs)

lemma Category_known: "Category k \<noteq> - 1 \<longleftrightarrow> k \<in> set all_kinds"
  by (auto simp: category_defs all_kinds_def)

text \<open>
  \<open>Category\<close> recognises exactly the fifteen named kinds, and names tell them apart: two
  recognised kinds with the same \<open>Humanize\<close> text are equal. Every other byte is unknown to both.
\<close>

theorem kind_classification:
  "(Category k \<noteq> - 1 \<longleftrightarrow> k \<in> set all_kinds) \<and>
   (Category k = - 1 \<longrightarrow> Humanize k = ''Unknown'') \<and>
   (Humanize k = Humanize k' \<and> k \<in> set all_kinds \<and> k' \<in> set all_kinds \<longrightarrow> k = k')"
proof (intro conjI)
  show "Category k \<noteq> - 1 \<longleftrightarrow> k \<in> set all_kinds"
    by (rule Category_known)
  show "Category k = - 1 \<longrightarrow> Humanize k = ''Unknown''"
    by (auto simp: category_defs Humanize_def split: if_splits)
  show "Humanize k = Humanize k' \<and> k \<in> set all_kinds \<and> k' \<in> set all_kinds \<longrightarrow> k = k'"
    unfolding all_kinds_def by (auto simp: Humanize_def kind_defs)
qed

theorem kind_classification_witness:
  "kInt \<in> set all_kinds \<and> Category kInt \<noteq> - 1 \<and> Category CHR ''z'' = - 1 \<and> Humanize CHR ''z'' = ''Unknown'' \<and>
   Humanize kInt = Humanize CHR 0x3A \<and> kInt = CHR 0x3A"
proof -
  have z: "Category CHR ''z'' = - 1" by (simp add: category_defs kind_defs)
  have i: "kInt \<in> set all_kinds" "CHR 0x3A \<in> set all_kinds" by (simp_all add: all_kinds_def kind_defs)
  have h: "Humanize kInt = Humanize CHR 0x3A" by (simp add: kInt_def)
  show ?thesis
    using kind_classification [of "CHR ''z''" "CHR ''z''"] kind_classification [of kInt "CHR 0x3A"] z i h by simp
qed

end
