(* ===== verification/Strconv.thy ===== *)
theory Strconv
  imports Go_Prelude
begin

text \<open>
  The text conversions of Go's \<^verbatim>\<open>strconv\<close> and \<^verbatim>\<open>math/big\<close> that the coder and the
  replication subscriber call: \<open>FormatInt\<close>, \<open>ParseInt\<close> (base 10, 64 bits),
  \<open>ParseBool\<close>, the \<open>%t\<close> verb, \<open>(*big.Int).String\<close> and
  \<open>(*big.Int).SetString(s, 0)\<close>. Each printer comes with the lemma that the matching
  parser reads its output back.
\<close>

subsection \<open>Decimal digits\<close>

definition digit_char :: "nat \<Rightarrow> char" where
  "digit_char d = char_of (48 + d)"

definition is_digit :: "char \<Rightarrow> bool" where
  "is_digit c \<longleftrightarrow> 48 \<le> (of_char c :: nat) \<and> (of_char c :: nat) \<le> 57"

definition digit_val :: "char \<Rightarrow> nat" where
  "digit_val c = of_char c - 48"

lemma of_char_digit_char [simp]: "d < 10 \<Longrightarrow> (of_char (digit_char d) :: nat) = 48 + d"
  by (simp add: digit_char_def)

lemma is_digit_digit_char [simp]: "d < 10 \<Longrightarrow> is_digit (digit_char d)"
  by (simp add: is_digit_def)

lemma digit_val_digit_char [simp]: "d < 10 \<Longrightarrow> digit_val (digit_char d) = d"
  by (simp add: digit_val_def)

fun nat_string :: "nat \<Rightarrow> string" where
  "nat_string n = (if n < 10 then [digit_char n] else nat_string (n div 10) @ [digit_char (n mod 10)])"

declare nat_string.simps [simp del]

definition digits_val :: "nat \<Rightarrow> string \<Rightarrow> nat" where
  "digits_val = foldl (\<lambda>n c. 10 * n + digit_val c)"

lemma digits_val_simps [simp]:
  "digits_val n [] = n"
  "digits_val n (c # cs) = digits_val (10 * n + digit_val c) cs"
  "digits_val n (cs @ ds) = digits_val (digits_val n cs) ds"
  by (simp_all add: digits_val_def)

lemma digits_val_ge: "n \<le> digits_val n cs"
proof (induction cs arbitrary: n)
  case (Cons c cs)
  have "n \<le> 10 * n + digit_val c" by simp
  also have "\<dots> \<le> digits_val (10 * n + digit_val c) cs" by (rule Cons.IH)
  finally show ?case by simp
qed simp

lemma nat_string_digits: "c \<in> set (nat_string n) \<Longrightarrow> is_digit c"
  by (induction n rule: nat_string.induct) (subst (asm) (2) nat_string.simps, auto split: if_splits)

lemma nat_string_not_Nil [simp]: "nat_string n \<noteq> []"
  by (subst nat_string.simps) simp

lemma digits_val_nat_string: "digits_val 0 (nat_string n) = n"
proof (induction n rule: nat_string.induct)
  case (1 n)
  then show ?case by (subst nat_string.simps) (cases "n < 10", simp_all)
qed

lemma nat_string_hd: "n \<noteq> 0 \<Longrightarrow> hd (nat_string n) \<noteq> CHR ''0''"
proof (induction n rule: nat_string.induct)
  case (1 n)
  show ?case
  proof (cases "n < 10")
    case True
    then have "digit_val (digit_char n) \<noteq> digit_val CHR ''0''"
      using 1 by (simp add: digit_val_def)
    then have "digit_char n \<noteq> CHR ''0''" by metis
    with True show ?thesis by (subst nat_string.simps) simp
  next
    case False
    then have "n div 10 \<noteq> 0" by simp
    with 1 False show ?thesis by (subst nat_string.simps) simp
  qed
qed

subsection \<open>FormatInt and ParseInt\<close>

definition FormatInt :: "int \<Rightarrow> string" where
  "FormatInt i = (if i < 0 then CHR ''-'' # nat_string (nat (- i)) else nat_string (nat i))"

text \<open>
  \<open>ParseUint(s, 10, 64)\<close>: the first character that is no digit is a syntax error, the first
  digit that takes the value to \<open>2 ^ 64\<close> or above a range error.
\<close>

fun parse_uint_loop :: "string \<Rightarrow> nat \<Rightarrow> string \<Rightarrow> error + nat" where
  "parse_uint_loop s n [] = Inr n"
| "parse_uint_loop s n (c # cs) =
     (if \<not> is_digit c then Inl (ErrSyntax s)
      else let n' = 10 * n + digit_val c in
        if n' \<ge> 2 ^ 64 then Inl (ErrRange s) else parse_uint_loop s n' cs)"

definition ParseUint :: "string \<Rightarrow> error + nat" where
  "ParseUint s = (if s = [] then Inl (ErrSyntax s) else parse_uint_loop s 0 s)"

definition ParseInt :: "string \<Rightarrow> error + int" where
  "ParseInt s =
     (if s = [] then Inl (ErrSyntax s)
      else let neg = (hd s = CHR ''-'');
               t = (if hd s = CHR ''+'' \<or> hd s = CHR ''-'' then tl s else s)
        in case ParseUint t of
             Inl (ErrSyntax _) \<Rightarrow> Inl (ErrSyntax s)
           | Inl _ \<Rightarrow> Inl (ErrRange s)
           | Inr un \<Rightarrow>
               if \<not> neg \<and> un \<ge> 2 ^ 63 then Inl (ErrRange s)
               else if neg \<and> un > 2 ^ 63 then Inl (ErrRange s)
               else Inr (if neg then - int un else int un))"

lemma parse_uint_loop_digits:
  "(\<And>c. c \<in> set cs \<Longrightarrow> is_digit c) \<Longrightarrow> digits_val n cs < 2 ^ 64 \<Longrightarrow>
   parse_uint_loop s n cs = Inr (digits_val n cs)"
proof (induction cs arbitrary: n)
  case Nil
  then show ?case by simp
next
  case (Cons c cs)
  have "10 * n + digit_val c < 2 ^ 64"
    using Cons.prems(2) digits_val_ge [of "10 * n + digit_val c" cs] by simp
  with Cons show ?case by (simp add: Let_def)
qed

lemma ParseUint_nat_string: "n < 2 ^ 64 \<Longrightarrow> ParseUint (nat_string n) = Inr n"
  by (simp add: ParseUint_def parse_uint_loop_digits digits_val_nat_string nat_string_digits)

lemma is_digit_sign [simp]: "\<not> is_digit CHR ''-''" "\<not> is_digit CHR ''+''"
  by (simp_all add: is_digit_def)

lemma hd_nat_string_digit [simp]: "is_digit (hd (nat_string n))"
  by (rule nat_string_digits [OF hd_in_set]) simp

lemma hd_nat_string_sign [simp]:
  "hd (nat_string n) \<noteq> CHR ''-''" "hd (nat_string n) \<noteq> CHR ''+''"
  by (metis hd_nat_string_digit is_digit_sign(1), metis hd_nat_string_digit is_digit_sign(2))

lemma ParseInt_FormatInt [simp]: "int64 i \<Longrightarrow> ParseInt (FormatInt i) = Inr i"
  by (auto simp: ParseInt_def FormatInt_def Let_def ParseUint_nat_string int64_def nat_le_iff)

lemma ParseInt_int64: "ParseInt s = Inr i \<Longrightarrow> int64 i"
  by (auto simp: ParseInt_def Let_def int64_def split: if_splits sum.splits error.splits)

lemma FormatInt_chars: "c \<in> set (FormatInt i) \<Longrightarrow> is_digit c \<or> c = CHR ''-''"
  by (auto simp: FormatInt_def nat_string_digits split: if_splits)

lemma FormatInt_not_Nil [simp]: "FormatInt i \<noteq> []"
  by (simp add: FormatInt_def)

subsection \<open>Booleans\<close>

definition FormatBool :: "bool \<Rightarrow> string" where
  "FormatBool b = (if b then ''true'' else ''false'')"

definition ParseBool :: "string \<Rightarrow> error + bool" where
  "ParseBool s =
     (if s \<in> {''1'', ''t'', ''T'', ''true'', ''TRUE'', ''True''} then Inr True
      else if s \<in> {''0'', ''f'', ''F'', ''false'', ''FALSE'', ''False''} then Inr False
      else Inl (ErrSyntax s))"

lemma ParseBool_FormatBool [simp]: "ParseBool (FormatBool b) = Inr b"
  by (simp add: ParseBool_def FormatBool_def)

subsection \<open>Arbitrary precision integers\<close>

text \<open>\<open>(*big.Int).String\<close>; the nil pointer prints as \<open><nil>\<close>.\<close>

definition BigInt_String :: "int option \<Rightarrow> string" where
  "BigInt_String b = (case b of None \<Rightarrow> ''<nil>'' | Some i \<Rightarrow> FormatInt i)"

text \<open>
  \<open>nat.scan\<close> with base 0: an optional base prefix, then digits of that base with
  underscores between them. \<open>prev\<close> is the class of the previous character: a digit
  (\<open>PDigit\<close>), an underscore, or anything else.
\<close>

datatype scan_prev = PDigit | PUnderscore | POther

definition big_digit :: "char \<Rightarrow> nat" where
  "big_digit c =
     (let n = of_char c :: nat in
        if 48 \<le> n \<and> n \<le> 57 then n - 48
        else if 97 \<le> n \<and> n \<le> 122 then n - 97 + 10
        else if 65 \<le> n \<and> n \<le> 90 then n - 65 + 10
        else 63)"

text \<open>
  The digit loop: \<open>None\<close> when a character that is no digit of base \<open>b\<close> is left over,
  otherwise the last character's class, whether a separator was misplaced, the number of
  digits and the value.
\<close>

fun scan_digits ::
    "nat \<Rightarrow> scan_prev \<Rightarrow> bool \<Rightarrow> nat \<Rightarrow> nat \<Rightarrow> string \<Rightarrow> (scan_prev \<times> bool \<times> nat \<times> nat) option" where
  "scan_digits b prev inval count z [] = Some (prev, inval, count, z)"
| "scan_digits b prev inval count z (c # cs) =
     (if c = CHR ''_'' then scan_digits b PUnderscore (inval \<or> prev \<noteq> PDigit) count z cs
      else if big_digit c < b then scan_digits b PDigit inval (Suc count) (b * z + big_digit c) cs
      else None)"

definition scan_finish :: "bool \<Rightarrow> (scan_prev \<times> bool \<times> nat \<times> nat) option \<Rightarrow> nat option" where
  "scan_finish octal r =
     (case r of
        None \<Rightarrow> None
      | Some (prev, inval, count, z) \<Rightarrow>
          if inval \<or> prev = PUnderscore then None
          else if count = 0 then (if octal then Some 0 else None)
          else Some z)"

definition scan_nat :: "string \<Rightarrow> nat option" where
  "scan_nat s =
     (if s \<noteq> [] \<and> hd s = CHR ''0'' then
        (case tl s of
           [] \<Rightarrow> scan_finish False (Some (PDigit, False, 1, 0))
         | c # cs \<Rightarrow>
             if c \<in> {CHR ''b'', CHR ''B''} then scan_finish False (scan_digits 2 PDigit False 0 0 cs)
             else if c \<in> {CHR ''o'', CHR ''O''} then scan_finish False (scan_digits 8 PDigit False 0 0 cs)
             else if c \<in> {CHR ''x'', CHR ''X''} then scan_finish False (scan_digits 16 PDigit False 0 0 cs)
             else scan_finish True (scan_digits 8 PDigit False 0 0 (c # cs)))
      else scan_finish False (scan_digits 10 POther False 0 0 s))"

text \<open>\<open>(*big.Int).SetString(s, 0)\<close>: an optional sign, then the whole rest is a number.\<close>

definition BigInt_SetString :: "string \<Rightarrow> int option" where
  "BigInt_SetString s =
     (if s = [] then None
      else if hd s = CHR ''-'' then map_option (\<lambda>n. - int n) (scan_nat (tl s))
      else if hd s = CHR ''+'' then map_option int (scan_nat (tl s))
      else map_option int (scan_nat s))"

lemma big_digit_digit: "is_digit c \<Longrightarrow> big_digit c = digit_val c \<and> digit_val c < 10 \<and> c \<noteq> CHR ''_''"
  by (auto simp: big_digit_def is_digit_def digit_val_def Let_def)

lemma scan_digits_decimal:
  "(\<And>c. c \<in> set cs \<Longrightarrow> is_digit c) \<Longrightarrow> cs \<noteq> [] \<Longrightarrow>
   scan_digits 10 prev inval count z cs = Some (PDigit, inval, count + length cs, digits_val z cs)"
proof (induction cs arbitrary: prev count z)
  case (Cons c cs)
  then have "big_digit c = digit_val c" "digit_val c < 10" "c \<noteq> CHR ''_''"
    using big_digit_digit [of c] by auto
  with Cons show ?case by (cases cs) auto
qed simp

lemma scan_nat_nat_string: "scan_nat (nat_string n) = Some n"
proof (cases "n = 0")
  case True
  then have "nat_string n = ''0''"
    by (simp add: nat_string.simps digit_char_def char_of_def bit_0)
  with True show ?thesis by (simp add: scan_nat_def scan_finish_def)
next
  case False
  have "scan_digits 10 POther False 0 0 (nat_string n) = Some (PDigit, False, length (nat_string n), n)"
    using scan_digits_decimal [of "nat_string n" POther False 0 0]
    by (simp add: nat_string_digits digits_val_nat_string)
  with nat_string_hd [OF False] show ?thesis
    by (simp add: scan_nat_def scan_finish_def)
qed

lemma BigInt_SetString_String [simp]: "BigInt_SetString (BigInt_String (Some i)) = Some i"
  by (simp add: BigInt_SetString_def BigInt_String_def FormatInt_def scan_nat_nat_string)

end
