(* ===== verification/Float64.thy ===== *)
theory Float64
  imports Complex_Main Strconv "HOL-Library.Log_Nat"
begin

text \<open>
  Go's \<open>float64\<close> as its IEEE 754 bit pattern, with \<open>strconv.ParseFloat(s, 64)\<close> and
  \<open>strconv.FormatFloat(f, 'f', -1, 64)\<close>. A finite pattern denotes \<open>m * 2 ^ (j - 1074)\<close> for a
  mantissa \<open>m\<close> below \<open>2 ^ 53\<close> and a binade \<open>j\<close>. Parsing rounds the exact rational value of the text to
  the nearest pattern, ties to even; printing gives the shortest decimal that rounds back.
\<close>

type_synonym float64 = "64 word"

subsection \<open>Bit patterns\<close>

definition f_neg :: "float64 \<Rightarrow> bool" where "f_neg w \<longleftrightarrow> 2 ^ 63 \<le> unat w"
definition f_mag :: "float64 \<Rightarrow> nat" where "f_mag w = unat w mod 2 ^ 63"
definition f_inf_mag :: nat where "f_inf_mag = 2047 * 2 ^ 52"

definition mk_float :: "bool \<Rightarrow> nat \<Rightarrow> float64" where
  "mk_float neg mag = of_nat ((if neg then 2 ^ 63 else 0) + mag)"

definition f_isInf :: "float64 \<Rightarrow> bool" where "f_isInf w \<longleftrightarrow> f_mag w = f_inf_mag"
definition f_isNaN :: "float64 \<Rightarrow> bool" where "f_isNaN w \<longleftrightarrow> f_inf_mag < f_mag w"
definition NaN :: float64 where "NaN = 0x7FF8000000000001"

text \<open>Binade and mantissa of a finite magnitude.\<close>

definition mag_binade :: "nat \<Rightarrow> nat" where "mag_binade n = n div 2 ^ 52 - 1"
definition mag_mant :: "nat \<Rightarrow> nat" where "mag_mant n = n - mag_binade n * 2 ^ 52"

text \<open>How many of the smallest positive floats make 1.\<close>

definition units :: rat where "units = 2 ^ 1074"

definition mag_value :: "nat \<Rightarrow> rat" where
  "mag_value n = of_nat (mag_mant n * 2 ^ mag_binade n) / units"

subsection \<open>Rounding to nearest, ties to even\<close>

definition round_even :: "rat \<Rightarrow> nat" where
  "round_even x =
     (let f = \<lfloor>x\<rfloor>; d = x - of_int f in
      nat (if d < 1 / 2 \<or> (d = 1 / 2 \<and> even f) then f else f + 1))"

text \<open>
  The pattern of the float nearest to \<open>y\<close> units, \<open>y \<ge> 0\<close>: its binade is the least \<open>j\<close> with
  \<open>y < 2 ^ (53 + j)\<close>. A mantissa that rounds up to \<open>2 ^ 53\<close> carries into the next binade by the addition
  alone, and an overflow shows as a magnitude of at least \<open>f_inf_mag\<close>.
\<close>

definition binade :: "rat \<Rightarrow> nat" where
  "binade y = floorlog 2 (nat \<lfloor>y\<rfloor>) - 53"

definition round_units :: "rat \<Rightarrow> nat" where
  "round_units y = binade y * 2 ^ 52 + round_even (y / 2 ^ binade y)"

definition round_mag :: "rat \<Rightarrow> nat" where
  "round_mag x = round_units (x * units)"

subsection \<open>ParseFloat\<close>

definition ascii_lower :: "char \<Rightarrow> char" where
  "ascii_lower c = (let n = of_char c :: nat in if 65 \<le> n \<and> n \<le> 90 then char_of (n + 32) else c)"

definition hex_letter :: "char \<Rightarrow> bool" where
  "hex_letter c \<longleftrightarrow> ascii_lower c \<in> set ''abcdef''"

text \<open>The mantissa loop: value of the digits, digits after the point, whether a digit and whether an
  underscore was seen, and the rest of the text.\<close>

fun read_mant ::
    "bool \<Rightarrow> bool \<Rightarrow> nat \<Rightarrow> nat \<Rightarrow> bool \<Rightarrow> bool \<Rightarrow> string \<Rightarrow> nat \<times> nat \<times> bool \<times> bool \<times> string" where
  "read_mant hex dot z fr dig und [] = (z, fr, dig, und, [])"
| "read_mant hex dot z fr dig und (c # cs) =
     (if c = CHR ''_'' then read_mant hex dot z fr dig True cs
      else if c = CHR ''.'' then
        (if dot then (z, fr, dig, und, c # cs) else read_mant hex True z fr dig und cs)
      else if is_digit c \<or> hex \<and> hex_letter c then
        read_mant hex dot ((if hex then 16 else 10) * z + big_digit c) (if dot then Suc fr else fr) True und cs
      else (z, fr, dig, und, c # cs))"

text \<open>The exponent digits; the value stops growing once it has reached 10000.\<close>

fun read_exp :: "nat \<Rightarrow> bool \<Rightarrow> string \<Rightarrow> nat \<times> bool \<times> string" where
  "read_exp e und [] = (e, und, [])"
| "read_exp e und (c # cs) =
     (if c = CHR ''_'' then read_exp e True cs
      else if is_digit c then read_exp (if e < 10000 then 10 * e + digit_val c else e) und cs
      else (e, und, c # cs))"

datatype under_saw = SawStart | SawDigit | SawUnder | SawOther

fun underscore_loop :: "bool \<Rightarrow> under_saw \<Rightarrow> string \<Rightarrow> bool" where
  "underscore_loop hex saw [] = (saw \<noteq> SawUnder)"
| "underscore_loop hex saw (c # cs) =
     (if is_digit c \<or> hex \<and> hex_letter c then underscore_loop hex SawDigit cs
      else if c = CHR ''_'' then saw = SawDigit \<and> underscore_loop hex SawUnder cs
      else saw \<noteq> SawUnder \<and> underscore_loop hex SawOther cs)"

definition strip_sign :: "string \<Rightarrow> string" where
  "strip_sign s = (if s \<noteq> [] \<and> (hd s = CHR ''+'' \<or> hd s = CHR ''-'') then tl s else s)"

definition underscoreOK :: "string \<Rightarrow> bool" where
  "underscoreOK s0 =
     (let s = strip_sign s0 in
      if 2 \<le> length s \<and> hd s = CHR ''0'' \<and> ascii_lower (s ! 1) \<in> set ''box''
      then underscore_loop (ascii_lower (s ! 1) = CHR ''x'') SawDigit (drop 2 s)
      else underscore_loop False SawStart s)"

text \<open>\<open>readFloat\<close> on the whole text: sign and exact magnitude, or \<open>None\<close> for a syntax error.\<close>

definition readFloat :: "string \<Rightarrow> (bool \<times> rat) option" where
  "readFloat s0 =
     (let neg = (s0 \<noteq> [] \<and> hd s0 = CHR ''-''); s = strip_sign s0;
          hex = (2 < length s \<and> hd s = CHR ''0'' \<and> ascii_lower (s ! 1) = CHR ''x'');
          (z, fr, dig, und, r) = read_mant hex False 0 0 False False (if hex then drop 2 s else s);
          mant = of_nat z / (if hex then 16 else 10) ^ fr;
          b = (if hex then 2 else 10) :: rat
      in if \<not> dig then None
         else if r = [] then
           (if hex \<or> (und \<and> \<not> underscoreOK s0) then None else Some (neg, mant))
         else if ascii_lower (hd r) \<noteq> (if hex then CHR ''p'' else CHR ''e'') then None
         else let t = strip_sign (tl r); eneg = (tl r \<noteq> [] \<and> hd (tl r) = CHR ''-'') in
           if t = [] \<or> \<not> is_digit (hd t) then None
           else let (e, und', r') = read_exp 0 und t in
             if r' \<noteq> [] \<or> (und' \<and> \<not> underscoreOK s0) then None
             else Some (neg, if eneg then mant / b ^ e else mant * b ^ e))"

definition ParseFloat :: "string \<Rightarrow> error + float64" where
  "ParseFloat s =
     (let l = map ascii_lower s in
      if l \<in> {''inf'', ''infinity'', ''+inf'', ''+infinity''} then Inr (mk_float False f_inf_mag)
      else if l \<in> {''-inf'', ''-infinity''} then Inr (mk_float True f_inf_mag)
      else if l = ''nan'' then Inr NaN
      else case readFloat s of
             None \<Rightarrow> Inl (ErrSyntax s)
           | Some (neg, x) \<Rightarrow>
               if f_inf_mag \<le> round_mag x then Inl (ErrRange s) else Inr (mk_float neg (round_mag x)))"

subsection \<open>FormatFloat\<close>

text \<open>
  The rounding interval of a finite magnitude \<open>n > 0\<close>: halfway to its neighbours, the lower one being
  nearer where \<open>n\<close> starts a binade. The end points belong to it when the mantissa is even.
\<close>

definition mag_lower :: "nat \<Rightarrow> rat" where
  "mag_lower n =
     (if mag_mant n = 2 ^ 52 \<and> mag_binade n \<noteq> 0 then of_nat (mag_mant n) - 1 / 4 else of_nat (mag_mant n) - 1 / 2)
     * 2 ^ mag_binade n / units"

definition mag_upper :: "nat \<Rightarrow> rat" where
  "mag_upper n = (of_nat (mag_mant n) + 1 / 2) * 2 ^ mag_binade n / units"

definition in_interval :: "nat \<Rightarrow> rat \<Rightarrow> bool" where
  "in_interval n x \<longleftrightarrow>
     (if even (mag_mant n) then mag_lower n \<le> x \<and> x \<le> mag_upper n
      else mag_lower n < x \<and> x < mag_upper n)"

definition pow10 :: "int \<Rightarrow> rat" where
  "pow10 k = (if 0 \<le> k then 10 ^ nat k else 1 / 10 ^ nat (- k))"

text \<open>The decimals with last place \<open>k\<close> just below and above the value, and which of them to print.\<close>

definition place_digits :: "nat \<Rightarrow> int \<Rightarrow> nat option" where
  "place_digits n k =
     (let x = mag_value n / pow10 k; t = nat \<lfloor>x\<rfloor>;
          down = in_interval n (of_nat t * pow10 k); up = in_interval n (of_nat (Suc t) * pow10 k)
      in if down \<and> up then Some (round_even x)
         else if down then Some t
         else if up then Some (Suc t)
         else None)"

text \<open>Places are tried from above the largest float down to the last place of the smallest one.\<close>

definition places :: "int list" where
  "places = map (\<lambda>i. 309 - int i) [0..<1384]"

definition shortest :: "nat \<Rightarrow> nat \<times> int" where
  "shortest n =
     (case find (\<lambda>k. place_digits n k \<noteq> None) places of
        Some k \<Rightarrow> (the (place_digits n k), k)
      | None \<Rightarrow> (0, 0))"

definition pad_zeros :: "nat \<Rightarrow> string \<Rightarrow> string" where
  "pad_zeros w s = replicate (w - length s) CHR ''0'' @ s"

definition format_f :: "nat \<times> int \<Rightarrow> string" where
  "format_f tk =
     (let (t, k) = tk in
      if 0 \<le> k then nat_string (t * 10 ^ nat k)
      else let p = nat (- k) in
        nat_string (t div 10 ^ p) @ CHR ''.'' # pad_zeros p (nat_string (t mod 10 ^ p)))"

definition FormatFloat :: "float64 \<Rightarrow> string" where
  "FormatFloat w =
     (if f_isNaN w then ''NaN''
      else if f_isInf w then (if f_neg w then ''-Inf'' else ''+Inf'')
      else (if f_neg w then ''-'' else '''') @
           (if f_mag w = 0 then ''0'' else format_f (shortest (f_mag w))))"

end
