(* ===== verification/Go_IO.thy ===== *)
theory Go_IO
  imports Go_Prelude
begin

text \<open>
  Go's \<open>io.Reader\<close> and \<open>io.Writer\<close> as the sources use them.

  A byte source delivers its content in \<open>chunks\<close>: one call of \<open>Read\<close> with a buffer of
  \<open>k\<close> bytes returns at most \<open>k\<close> bytes of the first chunk, so a source may return fewer
  bytes than asked for, or none, as \<open>bufio.Reader\<close> over a network connection does. When the
  chunks are used up every further call returns the source's final error. In-memory readers
  (\<open>bytes.Buffer\<close>, \<open>strings.Reader\<close>) have one chunk and the final error \<open>EOF\<close>.

  Readers are shared: a message holds a pointer to its reader, and copies of the message read
  from the same one. So readers live in a \<open>heap\<close> and are named by addresses. A heap object is a
  source or an \<open>io.LimitReader\<close> over another reader.
\<close>

type_synonym rid = nat

record reader =
  chunks :: "bytes list"
  final :: error

datatype robj = Src reader | Lim rid int

record heap =
  objs :: "rid \<Rightarrow> robj"
  brk :: rid

subsection \<open>Reading from one source\<close>

definition Read :: "nat \<Rightarrow> reader \<Rightarrow> (bytes \<times> error option) \<times> reader" where
  "Read k r =
     (case chunks r of
        [] \<Rightarrow> (([], Some (final r)), r)
      | c # cs \<Rightarrow>
          if length c \<le> k then ((c, None), r\<lparr>chunks := cs\<rparr>)
          else ((take k c, None), r\<lparr>chunks := drop k c # cs\<rparr>))"

definition rest :: "reader \<Rightarrow> bytes" where
  "rest r = concat (chunks r)"

definition weight :: "reader \<Rightarrow> nat" where
  "weight r = (\<Sum>c\<leftarrow>chunks r. Suc (length c))"

subsection \<open>The reader contract\<close>

text \<open>
  What the sources rely on of any \<open>io.Reader\<close>: a successful call hands out a prefix of what is
  left and, given a buffer, uses the source up a little; a failing call means that nothing was
  left, hands out nothing and reports the final error.
\<close>

locale byte_source =
  fixes read :: "nat \<Rightarrow> 's \<Rightarrow> (bytes \<times> error option) \<times> 's"
    and left :: "'s \<Rightarrow> bytes"
    and fin :: "'s \<Rightarrow> error"
    and fuel :: "'s \<Rightarrow> nat"
  assumes read_ok: "read k s = ((p, None), s') \<Longrightarrow>
      left s = p @ left s' \<and> length p \<le> k \<and> fin s' = fin s \<and> (0 < k \<longrightarrow> fuel s' < fuel s)"
    and read_fail: "read k s = ((p, Some e), s') \<Longrightarrow> p = [] \<and> left s = [] \<and> e = fin s \<and> s' = s"
    and read_end: "left s \<noteq> [] \<Longrightarrow> \<exists>p s'. read k s = ((p, None), s')"
begin

lemma read_take: "read k s = ((p, None), s') \<Longrightarrow> p = take (length p) (left s)"
  using read_ok by fastforce

lemma read_drop: "read k s = ((p, None), s') \<Longrightarrow> left s' = drop (length p) (left s)"
  using read_ok by fastforce

lemma read_length: "read k s = ((p, None), s') \<Longrightarrow> length (left s') + length p = length (left s)"
  using read_ok by fastforce

lemma read_cases:
  obtains (ok) p s' where "read k s = ((p, None), s')" "left s = p @ left s'" "length p \<le> k"
      "fin s' = fin s" "0 < k \<Longrightarrow> fuel s' < fuel s"
  | (fail) "read k s = (([], Some (fin s)), s)" "left s = []"
proof -
  obtain p e s' where r: "read k s = ((p, e), s')" by (metis surj_pair)
  show thesis
  proof (cases e)
    case None
    with r show thesis using read_ok [of k s p s'] ok by blast
  next
    case (Some e')
    with r show thesis using read_fail [of k s p e' s'] fail by blast
  qed
qed

end

lemma weight_Cons [simp]: "chunks r = c # cs \<Longrightarrow> weight r = Suc (length c) + weight (r\<lparr>chunks := cs\<rparr>)"
  by (simp add: weight_def)

interpretation src: byte_source Read rest final weight
  by unfold_locales
    (auto simp: Read_def rest_def weight_def split: list.splits if_splits)

subsection \<open>Reading through the heap\<close>

text \<open>
  \<open>hread r k h\<close> is the call \<open>r.Read(b)\<close> with \<open>len(b) = k\<close>. An \<open>io.LimitReader\<close> reports \<open>EOF\<close>
  when its budget is used up, else passes the call on with a buffer cut to the budget. It wraps a
  reader that was allocated before it, so its own address is larger.
\<close>

function hread :: "rid \<Rightarrow> nat \<Rightarrow> heap \<Rightarrow> (bytes \<times> error option) \<times> heap" where
  "hread r k h =
     (case objs h r of
        Src s \<Rightarrow> (let (res, s') = Read k s in (res, h\<lparr>objs := (objs h)(r := Src s')\<rparr>))
      | Lim r' n \<Rightarrow>
          if n \<le> 0 \<or> r \<le> r' then (([], Some EOF), h)
          else (let ((p, e), h') = hread r' (min k (nat n)) h
                in ((p, e), h'\<lparr>objs := (objs h')(r := Lim r' (n - int (length p)))\<rparr>)))"
  by pat_completeness auto
termination
  by (relation "measure (\<lambda>(r, k, h). r)") auto

declare hread.simps [simp del]

text \<open>What is left of a heap reader, the error it ends with, and its remaining read steps.\<close>

function hleft :: "rid \<Rightarrow> heap \<Rightarrow> bytes" where
  "hleft r h =
     (case objs h r of
        Src s \<Rightarrow> rest s
      | Lim r' n \<Rightarrow> if n \<le> 0 \<or> r \<le> r' then [] else take (nat n) (hleft r' h))"
  by pat_completeness auto
termination
  by (relation "measure fst") auto

function hfin :: "rid \<Rightarrow> heap \<Rightarrow> error" where
  "hfin r h =
     (case objs h r of
        Src s \<Rightarrow> final s
      | Lim r' n \<Rightarrow>
          if n \<le> 0 \<or> r \<le> r' \<or> nat n \<le> length (hleft r' h) then EOF else hfin r' h)"
  by pat_completeness auto
termination
  by (relation "measure fst") auto

function hfuel :: "rid \<Rightarrow> heap \<Rightarrow> nat" where
  "hfuel r h =
     (case objs h r of
        Src s \<Rightarrow> weight s
      | Lim r' n \<Rightarrow> if n \<le> 0 \<or> r \<le> r' then 0 else hfuel r' h)"
  by pat_completeness auto
termination
  by (relation "measure fst") auto

declare hleft.simps [simp del] hfin.simps [simp del] hfuel.simps [simp del]

lemma hread_Src:
  "objs h r = Src s \<Longrightarrow>
   hread r k h = (fst (Read k s), h\<lparr>objs := (objs h)(r := Src (snd (Read k s)))\<rparr>)"
  by (simp add: hread.simps split: prod.split)

lemma hread_Lim:
  "objs h r = Lim r' n \<Longrightarrow> 0 < n \<Longrightarrow> r' < r \<Longrightarrow> hread r' (min k (nat n)) h = ((p, e), h') \<Longrightarrow>
   hread r k h = ((p, e), h'\<lparr>objs := (objs h')(r := Lim r' (n - int (length p)))\<rparr>)"
  by (simp add: hread.simps [of r])

lemma hread_Lim_end: "objs h r = Lim r' n \<Longrightarrow> n \<le> 0 \<or> r \<le> r' \<Longrightarrow> hread r k h = (([], Some EOF), h)"
  by (simp add: hread.simps [of r])

lemma heap_view_Src:
  "objs h r = Src s \<Longrightarrow> hleft r h = rest s"
  "objs h r = Src s \<Longrightarrow> hfin r h = final s"
  "objs h r = Src s \<Longrightarrow> hfuel r h = weight s"
  by (simp_all add: hleft.simps hfin.simps hfuel.simps)

lemma heap_view_Lim:
  assumes "objs h r = Lim r' n" "0 < n" "r' < r"
  shows "hleft r h = take (nat n) (hleft r' h)"
    and "hfin r h = (if nat n \<le> length (hleft r' h) then EOF else hfin r' h)"
    and "hfuel r h = hfuel r' h"
  using assms by (simp_all add: hleft.simps [of r] hfin.simps [of r] hfuel.simps [of r])

lemma heap_view_Lim_end:
  assumes "objs h r = Lim r' n" "n \<le> 0 \<or> r \<le> r'"
  shows "hleft r h = []" and "hfin r h = EOF" and "hfuel r h = 0"
  using assms by (auto simp add: hleft.simps [of r] hfin.simps [of r] hfuel.simps [of r])

lemma robj_cases [case_names Src Lim End]:
  obtains (Src) s where "objs h r = Src s"
  | (Lim) r' n where "objs h r = Lim r' n" "0 < n" "r' < r"
  | (End) r' n where "objs h r = Lim r' n" "n \<le> 0 \<or> r \<le> r'"
proof (cases "objs h r")
  case (Lim r' n)
  then show thesis using that(2,3) by (cases "n \<le> 0 \<or> r \<le> r'") auto
qed (rule that(1))

lemma hread_above: "r < i \<Longrightarrow> hread r k h = (res, h') \<Longrightarrow> objs h' i = objs h i"
proof (induction r arbitrary: k res h' rule: less_induct)
  case (less r)
  show ?case
  proof (cases rule: robj_cases [of h r])
    case (Src s)
    with less.prems show ?thesis by (auto simp: hread_Src)
  next
    case (Lim r' n)
    obtain p e h1 where r': "hread r' (min k (nat n)) h = ((p, e), h1)" by (metis surj_pair)
    then have "objs h1 i = objs h i" using less Lim by auto
    with less.prems r' Lim show ?thesis by (auto simp: hread_Lim)
  next
    case (End r' n)
    with less.prems show ?thesis by (auto simp: hread_Lim_end)
  qed
qed

lemma heap_view_cong:
  assumes "\<And>i. i \<le> r \<Longrightarrow> objs h' i = objs h i"
  shows "hleft r h' = hleft r h \<and> hfin r h' = hfin r h \<and> hfuel r h' = hfuel r h"
  using assms
proof (induction r rule: less_induct)
  case (less r)
  have same: "objs h' r = objs h r" by (rule less.prems) simp
  show ?case
  proof (cases rule: robj_cases [of h r])
    case (Lim r' n)
    with less have "hleft r' h' = hleft r' h \<and> hfin r' h' = hfin r' h \<and> hfuel r' h' = hfuel r' h"
      by (meson le_trans less_imp_le)
    with Lim same show ?thesis by (simp add: heap_view_Lim)
  qed (use same in \<open>simp_all add: heap_view_Src heap_view_Lim_end\<close>)
qed

lemma heap_view_update:
  assumes "r < i"
  shows "hleft r (h\<lparr>objs := (objs h)(i := x)\<rparr>) = hleft r h"
    and "hfin r (h\<lparr>objs := (objs h)(i := x)\<rparr>) = hfin r h"
    and "hfuel r (h\<lparr>objs := (objs h)(i := x)\<rparr>) = hfuel r h"
  using heap_view_cong [of r "h\<lparr>objs := (objs h)(i := x)\<rparr>" h] assms by auto

text \<open>Reading through the heap keeps the contract, whichever object the address names.\<close>

lemma hread_ok:
  "hread r k h = ((p, None), h') \<Longrightarrow>
   hleft r h = p @ hleft r h' \<and> length p \<le> k \<and> hfin r h' = hfin r h \<and> (0 < k \<longrightarrow> hfuel r h' < hfuel r h)"
proof (induction r arbitrary: k p h' rule: less_induct)
  case (less r)
  show ?case
  proof (cases rule: robj_cases [of h r])
    case (Src s)
    with less.prems obtain s' where "Read k s = ((p, None), s')" "h' = h\<lparr>objs := (objs h)(r := Src s')\<rparr>"
      by (cases "Read k s") (auto simp: hread_Src)
    with Src show ?thesis using src.read_ok by (fastforce simp: heap_view_Src)
  next
    case (Lim r' n)
    obtain q e h1 where q: "hread r' (min k (nat n)) h = ((q, e), h1)" by (metis surj_pair)
    with less.prems Lim have e: "e = None" "q = p"
      and h': "h' = h1\<lparr>objs := (objs h1)(r := Lim r' (n - int (length p)))\<rparr>"
      by (auto simp: hread_Lim)
    note IH = less.IH [OF Lim(3) q [unfolded e]]
    have at: "objs h' r = Lim r' (n - int (length p))" by (simp add: h')
    have below: "hleft r' h' = hleft r' h1" "hfin r' h' = hfin r' h1" "hfuel r' h' = hfuel r' h1"
      using Lim(3) by (simp_all add: h' heap_view_update)
    show ?thesis
    proof (cases "int (length p) < n")
      case True
      then show ?thesis using IH Lim at below
        by (auto simp: heap_view_Lim nat_diff_distrib)
    next
      case False
      then have "length p = nat n" using IH Lim by auto
      then show ?thesis using IH Lim at below
        by (auto simp: heap_view_Lim heap_view_Lim_end(1) [OF at] heap_view_Lim_end(2) [OF at]
            heap_view_Lim_end(3) [OF at])
    qed
  next
    case (End r' n)
    with less.prems show ?thesis by (simp add: hread_Lim_end)
  qed
qed

lemma fun_upd_same_heap: "objs h r = x \<Longrightarrow> h\<lparr>objs := (objs h)(r := x)\<rparr> = h"
  by auto

lemma hread_fail:
  "hread r k h = ((p, Some e), h') \<Longrightarrow> p = [] \<and> hleft r h = [] \<and> e = hfin r h \<and> h' = h"
proof (induction r arbitrary: k p h' rule: less_induct)
  case (less r)
  show ?case
  proof (cases rule: robj_cases [of h r])
    case (Src s)
    with less.prems obtain s' where "Read k s = ((p, Some e), s')" "h' = h\<lparr>objs := (objs h)(r := Src s')\<rparr>"
      by (cases "Read k s") (auto simp: hread_Src)
    with Src show ?thesis using src.read_fail by (fastforce simp: heap_view_Src fun_upd_same_heap)
  next
    case (Lim r' n)
    obtain q e' h1 where q: "hread r' (min k (nat n)) h = ((q, e'), h1)" by (metis surj_pair)
    with less.prems Lim have e: "e' = Some e" "q = p"
      and h': "h' = h1\<lparr>objs := (objs h1)(r := Lim r' (n - int (length p)))\<rparr>"
      by (auto simp: hread_Lim)
    note IH = less.IH [OF Lim(3) q [unfolded e]]
    with h' Lim show ?thesis by (simp add: heap_view_Lim fun_upd_same_heap)
  next
    case (End r' n)
    with less.prems show ?thesis by (simp add: hread_Lim_end heap_view_Lim_end)
  qed
qed

lemma hread_end: "hleft r h \<noteq> [] \<Longrightarrow> \<exists>p h'. hread r k h = ((p, None), h')"
  using hread_fail by (metis not_None_eq surj_pair)

interpretation hp: byte_source "hread r" "hleft r" "hfin r" "hfuel r" for r
  by unfold_locales (use hread_ok hread_fail hread_end in blast)+

text \<open>A source's reads touch no other object.\<close>

lemma hread_Src_frame:
  "objs h r = Src s \<Longrightarrow> hread r k h = (res, h') \<Longrightarrow>
   (\<exists>s'. objs h' r = Src s') \<and> (\<forall>i. i \<noteq> r \<longrightarrow> objs h' i = objs h i) \<and> brk h' = brk h"
  by (auto simp: hread_Src)

subsection \<open>Allocation\<close>

definition new_reader :: "robj \<Rightarrow> heap \<Rightarrow> rid \<times> heap" where
  "new_reader x h = (brk h, h\<lparr>objs := (objs h)(brk h := x), brk := Suc (brk h)\<rparr>)"

text \<open>\<open>bytes.NewBufferString(s)\<close> and \<open>io.LimitReader(r, n)\<close>.\<close>

definition mem_reader :: "bytes \<Rightarrow> reader" where
  "mem_reader s = \<lparr>chunks = (if s = [] then [] else [s]), final = EOF\<rparr>"

abbreviation empty_heap :: heap where
  "empty_heap \<equiv> \<lparr>objs = (\<lambda>_. Src (mem_reader [])), brk = 0\<rparr>"

definition NewBufferString :: "bytes \<Rightarrow> heap \<Rightarrow> rid \<times> heap" where
  "NewBufferString s = new_reader (Src (mem_reader s))"

text \<open>The new object lies above every allocated one and above the reader it wraps.\<close>

definition LimitReader :: "rid \<Rightarrow> int \<Rightarrow> heap \<Rightarrow> rid \<times> heap" where
  "LimitReader r n h =
     (let a = max (brk h) (Suc r) in (a, h\<lparr>objs := (objs h)(a := Lim r n), brk := Suc a\<rparr>))"

lemma LimitReader_view:
  assumes "LimitReader r n h = (a, h')"
  shows "hleft r h' = hleft r h" "hfin r h' = hfin r h" "hfuel r h' = hfuel r h"
    and "objs h' a = Lim r n" "r < a" "brk h \<le> a" "brk h' = Suc a"
proof -
  have "\<And>i. i \<le> r \<Longrightarrow> objs h' i = objs h i" using assms by (auto simp: LimitReader_def Let_def max_def)
  then show "hleft r h' = hleft r h" "hfin r h' = hfin r h" "hfuel r h' = hfuel r h"
    using heap_view_cong [of r h' h] by simp_all
  show "objs h' a = Lim r n" "r < a" "brk h \<le> a" "brk h' = Suc a"
    using assms by (auto simp: LimitReader_def Let_def)
qed

lemma LimitReader_left:
  assumes "LimitReader r n h = (a, h')"
  shows "hleft a h' = take (nat n) (hleft r h)"
proof (cases "0 < n")
  case True
  then show ?thesis
    using heap_view_Lim(1) [OF LimitReader_view(4) [OF assms] True] LimitReader_view(1,5) [OF assms] by simp
next
  case False
  then show ?thesis
    using heap_view_Lim_end(1) [OF LimitReader_view(4) [OF assms]] by simp
qed

lemma rest_mem_reader [simp]: "rest (mem_reader s) = s"
  by (simp add: rest_def mem_reader_def)

lemma final_mem_reader [simp]: "final (mem_reader s) = EOF"
  by (simp add: mem_reader_def)

subsection \<open>io.ReadFull\<close>

text \<open>
  \<open>io.ReadFull(r, b)\<close> with \<open>len(b) = k\<close>: reads until \<open>k\<close> bytes are there or a read fails;
  \<open>EOF\<close> after at least one byte becomes \<open>ErrUnexpectedEOF\<close>. The result holds the bytes read.
\<close>

function ReadFull_loop :: "rid \<Rightarrow> nat \<Rightarrow> bytes \<Rightarrow> heap \<Rightarrow> (bytes \<times> error option) \<times> heap" where
  "ReadFull_loop r k acc h =
     (if k \<le> length acc then ((acc, None), h)
      else case hread r (k - length acc) h of
             ((p, None), h') \<Rightarrow> ReadFull_loop r k (acc @ p) h'
           | ((p, Some e), h') \<Rightarrow>
               ((acc @ p, Some (if acc @ p \<noteq> [] \<and> e = EOF then ErrUnexpectedEOF else e)), h'))"
  by pat_completeness auto
termination
  by (relation "measure (\<lambda>(r, k, acc, h). hfuel r h)") (auto dest!: hread_ok [OF sym])

declare ReadFull_loop.simps [simp del]

definition ReadFull :: "rid \<Rightarrow> nat \<Rightarrow> heap \<Rightarrow> (bytes \<times> error option) \<times> heap" where
  "ReadFull r k h = ReadFull_loop r k [] h"

lemma ReadFull_loop_ok:
  "length acc \<le> k \<Longrightarrow> k \<le> length acc + length (hleft r h) \<Longrightarrow>
   \<exists>h'. ReadFull_loop r k acc h = ((acc @ take (k - length acc) (hleft r h), None), h') \<and>
        hleft r h' = drop (k - length acc) (hleft r h)"
proof (induction r k acc h rule: ReadFull_loop.induct)
  case (1 r k acc h)
  show ?case
  proof (cases "k \<le> length acc")
    case True
    then show ?thesis by (simp add: ReadFull_loop.simps [of r k])
  next
    case False
    with 1 have "hleft r h \<noteq> []" by auto
    then obtain p h1 where p: "hread r (k - length acc) h = ((p, None), h1)"
      by (blast dest: hread_end)
    note ok = hread_ok [OF p]
    have "\<exists>h'. ReadFull_loop r k (acc @ p) h1 =
          (((acc @ p) @ take (k - length (acc @ p)) (hleft r h1), None), h') \<and>
        hleft r h' = drop (k - length (acc @ p)) (hleft r h1)"
      using 1 False p ok by (intro "1.IH" [OF False p [symmetric] refl refl]) auto
    moreover have "ReadFull_loop r k acc h = ReadFull_loop r k (acc @ p) h1"
      using False p by (simp add: ReadFull_loop.simps [of r k acc])
    ultimately show ?thesis using ok False by auto
  qed
qed

lemma ReadFull_loop_short:
  "length acc + length (hleft r h) < k \<Longrightarrow>
   \<exists>h' e. ReadFull_loop r k acc h = ((acc @ hleft r h, Some e), h') \<and> hleft r h' = []"
proof (induction r k acc h rule: ReadFull_loop.induct)
  case (1 r k acc h)
  then have F: "\<not> k \<le> length acc" by auto
  show ?case
  proof (cases rule: hp.read_cases [of r "k - length acc" h])
    case (ok p h1)
    have "\<exists>h' e. ReadFull_loop r k (acc @ p) h1 = (((acc @ p) @ hleft r h1, Some e), h') \<and> hleft r h' = []"
      using 1 F ok by (intro "1.IH" [OF F ok(1) [symmetric] refl refl]) auto
    with ok F show ?thesis by (simp add: ReadFull_loop.simps [of r k acc])
  next
    case fail
    with F show ?thesis by (simp add: ReadFull_loop.simps [of r k acc])
  qed
qed

lemma ReadFull_ok:
  "k \<le> length (hleft r h) \<Longrightarrow>
   \<exists>h'. ReadFull r k h = ((take k (hleft r h), None), h') \<and> hleft r h' = drop k (hleft r h)"
  using ReadFull_loop_ok [of "[]" k r h] by (simp add: ReadFull_def)

lemma ReadFull_short:
  "length (hleft r h) < k \<Longrightarrow>
   \<exists>h' e. ReadFull r k h = ((hleft r h, Some e), h') \<and> hleft r h' = []"
  using ReadFull_loop_short [of "[]" r h k] by (simp add: ReadFull_def)

subsection \<open>Writers\<close>

text \<open>
  An \<open>io.Writer\<close> that takes up to \<open>room\<close> more bytes (\<open>None\<close>: any number) and then fails with its
  error, as a buffered writer over a broken connection does. \<open>Write\<close> returns how many bytes it took.
\<close>

record writer =
  out :: bytes
  room :: "nat option"
  werr :: error

definition Write :: "bytes \<Rightarrow> writer \<Rightarrow> (nat \<times> error option) \<times> writer" where
  "Write p w =
     (case room w of
        None \<Rightarrow> ((length p, None), w\<lparr>out := out w @ p\<rparr>)
      | Some n \<Rightarrow>
          if length p \<le> n then ((length p, None), w\<lparr>out := out w @ p, room := Some (n - length p)\<rparr>)
          else ((n, Some (werr w)), w\<lparr>out := out w @ take n p, room := Some 0\<rparr>))"

text \<open>The contract of \<open>io.Writer\<close>: it reports exactly the bytes it took, and an error if not all.\<close>

locale byte_sink =
  fixes put :: "bytes \<Rightarrow> 'w \<Rightarrow> (nat \<times> error option) \<times> 'w"
    and written :: "'w \<Rightarrow> bytes"
  assumes write_written: "put p w = ((n, e), w') \<Longrightarrow> written w' = written w @ take n p \<and> n \<le> length p"
    and write_all: "put p w = ((n, None), w') \<Longrightarrow> n = length p"
begin

lemma write_count: "put p w = ((n, e), w') \<Longrightarrow> length (written w') = length (written w) + n"
  using write_written by fastforce

lemma write_ok: "put p w = ((n, None), w') \<Longrightarrow> n = length p \<and> written w' = written w @ p"
  using write_written write_all by fastforce

lemma write_prefix: "put p w = ((n, e), w') \<Longrightarrow> \<exists>q r. p = q @ r \<and> written w' = written w @ q"
  using write_written by (metis append_take_drop_id)

end

interpretation wr: byte_sink Write out
  by unfold_locales (auto simp: Write_def split: option.splits if_splits)

text \<open>A writer with unbounded room, such as \<open>bytes.Buffer\<close>, never fails.\<close>

lemma Write_unbounded: "room w = None \<Longrightarrow> Write p w = ((length p, None), w\<lparr>out := out w @ p\<rparr>)"
  by (simp add: Write_def)

end
