(* ===== verification/Message.thy ===== *)
theory Message
  imports Kind Strconv Float64 Go_IO
begin

text \<open>
  \<^verbatim>\<open>protocol/message/message.go\<close> and \<^verbatim>\<open>protocol/new.go\<close>, \<^verbatim>\<open>protocol/error.go\<close>: the message
  struct and the functions that build messages.

  A field of pointer or interface type is an \<open>option\<close> or a datatype with a nil constructor. The two
  iterator fields hold closures; the sources build four kinds of them, which are the constructors of
  \<open>seq\<close> and \<open>assoc\<close>: iteration over a slice of messages (\<open>Array\<close>, \<open>Set\<close>), lazy decoding
  of a reader (\<open>Encoder.Iterate\<close>), iteration over a slice two by two (\<open>Map\<close>), and \<open>chunk\<close> of a
  lazily decoded reader.
\<close>

datatype message = Message
    (msgKind: Kind)
    (msgSimpleString: string)
    (msgError: "error option")
    (msgInt: int)
    (msgBool: bool)
    (msgDouble: float64)
    (msgBigNumber: "int option")
    (msgTotalMessageSize: int)
    (msgRunLength: int)
    (msgReader: "rid option")
    (msgEncoding: bytes)
    (msgSeq: seq)
    (msgAssoc: assoc)
and seq = NilSeq | SliceSeq "message list" | IterateSeq rid
and assoc = NilAssoc | PairsAssoc "message list" | ChunkAssoc rid

text \<open>\<open>Message{Kind: k}\<close>, all other fields at their zero values; \<open>Message{}\<close> has the kind byte 0.\<close>

definition kind_msg :: "Kind \<Rightarrow> message" where
  "kind_msg k = Message k [] None 0 False 0 None 0 0 None (replicate 3 CHR 0x00) NilSeq NilAssoc"

definition zero_msg :: message where
  "zero_msg = kind_msg CHR 0x00"

text \<open>Setting a field of a message value.\<close>

definition set_TotalMessageSize :: "int \<Rightarrow> message \<Rightarrow> message" where
  "set_TotalMessageSize n m = Message (msgKind m) (msgSimpleString m) (msgError m) (msgInt m)
     (msgBool m) (msgDouble m) (msgBigNumber m) n (msgRunLength m) (msgReader m) (msgEncoding m)
     (msgSeq m) (msgAssoc m)"

subsection \<open>Constructors\<close>

definition SimpleString :: "string \<Rightarrow> message" where
  "SimpleString s = Message kSimpleString s None 0 False 0 None 0 0 None (replicate 3 CHR 0x00) NilSeq NilAssoc"

definition Error :: "string \<Rightarrow> message" where
  "Error s = Message kError [] (Some (New s)) 0 False 0 None 0 0 None (replicate 3 CHR 0x00) NilSeq NilAssoc"

definition Null :: message where
  "Null = kind_msg kNull"

definition Int_msg :: "int \<Rightarrow> message" where
  "Int_msg i = Message kInt [] None i False 0 None 0 0 None (replicate 3 CHR 0x00) NilSeq NilAssoc"

definition Bool :: "bool \<Rightarrow> message" where
  "Bool b = Message kBool [] None 0 b 0 None 0 0 None (replicate 3 CHR 0x00) NilSeq NilAssoc"

definition Double :: "float64 \<Rightarrow> message" where
  "Double f = Message kDouble [] None 0 False f None 0 0 None (replicate 3 CHR 0x00) NilSeq NilAssoc"

definition BigNumber :: "int option \<Rightarrow> message" where
  "BigNumber b = Message kBigNumber [] None 0 False 0 b 0 0 None (replicate 3 CHR 0x00) NilSeq NilAssoc"

definition BulkString :: "rid \<Rightarrow> int \<Rightarrow> message" where
  "BulkString s runLength =
     Message kBulkString [] None 0 False 0 None 0 runLength (Some s) (replicate 3 CHR 0x00) NilSeq NilAssoc"

definition BulkError :: "rid \<Rightarrow> int \<Rightarrow> message" where
  "BulkError s runlength =
     Message kBulkError [] None 0 False 0 None 0 runlength (Some s) (replicate 3 CHR 0x00) NilSeq NilAssoc"

definition VerbatimString :: "rid \<Rightarrow> int \<Rightarrow> bytes \<Rightarrow> message" where
  "VerbatimString s runlength encoding =
     Message kVerbatimString [] None 0 False 0 None 0 runlength (Some s) encoding NilSeq NilAssoc"

definition Array :: "message list \<Rightarrow> message" where
  "Array arrs = Message kArray [] None 0 False 0 None 0 (int (length arrs)) None
     (replicate 3 CHR 0x00) (SliceSeq arrs) NilAssoc"

definition Set :: "message list \<Rightarrow> message" where
  "Set arrs = Message kSet [] None 0 False 0 None 0 (int (length arrs)) None
     (replicate 3 CHR 0x00) (SliceSeq arrs) NilAssoc"

definition Map :: "message list \<Rightarrow> message go" where
  "Map kvs =
     (if length kvs mod 2 \<noteq> 0 then Panic ''must have even number of key/value pairs''
      else Ret (Message kMap [] None 0 False 0 None 0 (int (length kvs div 2)) None
        (replicate 3 CHR 0x00) NilSeq (PairsAssoc kvs)))"

lemmas message_defs = kind_msg_def zero_msg_def SimpleString_def Error_def Null_def Int_msg_def Bool_def
  Double_def BigNumber_def BulkString_def BulkError_def VerbatimString_def Array_def Set_def

subsection \<open>The protocol package's constructors\<close>

definition NewArray :: "message list \<Rightarrow> message" where
  "NewArray messages = Array messages"

definition NewBulkString :: "string \<Rightarrow> heap \<Rightarrow> message \<times> heap" where
  "NewBulkString s h = (let (r, h') = NewBufferString s h in (BulkString r (int (length s)), h'))"

fun NewBulkStrings :: "string list \<Rightarrow> heap \<Rightarrow> message list \<times> heap" where
  "NewBulkStrings [] h = ([], h)"
| "NewBulkStrings (a # as) h =
     (let (m, h1) = NewBulkString a h; (ms, h2) = NewBulkStrings as h1 in (m # ms, h2))"

definition NewOutgoingCommand :: "string list \<Rightarrow> heap \<Rightarrow> message \<times> heap" where
  "NewOutgoingCommand args h = (let (ms, h') = NewBulkStrings args h in (NewArray ms, h'))"

definition NewError :: "error option \<Rightarrow> message" where
  "NewError err = Message kError [] err 0 False 0 None 0 0 None (replicate 3 CHR 0x00) NilSeq NilAssoc"

subsection \<open>Reading a bulk message\<close>

text \<open>
  \<open>ReadAll\<close>: a negative run length panics in \<open>make\<close>, a nil reader panics on the first read, and any
  read error is swallowed: the result is then the empty string and no error. Lengths beyond what the machine can allocate
  are not modelled.
\<close>

definition ReadAll :: "message \<Rightarrow> heap \<Rightarrow> ((string \<times> error option) \<times> heap) go" where
  "ReadAll m h =
     (if msgRunLength m < 0 then Panic ''makeslice: len out of range''
      else if msgRunLength m = 0 then Ret (([], None), h)
      else case msgReader m of
             None \<Rightarrow> Panic ''nil pointer dereference''
           | Some r \<Rightarrow>
               (case ReadFull r (nat (msgRunLength m)) h of
                  ((b, None), h') \<Rightarrow> Ret ((b, None), h')
                | ((b, Some err), h') \<Rightarrow> Ret (([], None), h')))"

lemma ReadAll_never_error: "ReadAll m h = Ret ((s, e), h') \<Longrightarrow> e = None"
  by (auto simp: ReadAll_def split: if_splits option.splits prod.splits)

lemma ReadAll_full:
  assumes "msgReader m = Some r" "0 \<le> msgRunLength m" "nat (msgRunLength m) \<le> length (hleft r h)"
  shows "\<exists>h'. ReadAll m h = Ret ((take (nat (msgRunLength m)) (hleft r h), None), h') \<and>
    hleft r h' = drop (nat (msgRunLength m)) (hleft r h)"
  using ReadFull_ok [OF assms(3)] assms(1,2) by (auto simp: ReadAll_def)

lemma ReadAll_short:
  assumes "msgReader m = Some r" "length (hleft r h) < nat (msgRunLength m)"
  shows "\<exists>h'. ReadAll m h = Ret (([], None), h') \<and> hleft r h' = []"
  using ReadFull_short [OF assms(2)] assms by (auto simp: ReadAll_def)

end
