(* ===== verification/Coder.thy ===== *)
theory Coder
  imports Message
begin

text \<open>
  \<^verbatim>\<open>protocol/message/coder.go\<close>: the decoder (\<open>simpleUnmarshal\<close>, \<open>Iterate\<close>, \<open>chunk\<close>,
  \<open>Decode\<close>) over a heap reader, and the encoder (\<open>Encode\<close>, \<open>writeBulk\<close>, \<open>simpleToByte\<close>,
  \<open>emptyBuffer\<close>) into a writer.
\<close>

record Encoder =
  ChunkSize :: int
  BufferSize :: int

subsection \<open>Decoding: one line\<close>

text \<open>
  \<open>simpleUnmarshal\<close> reads byte by byte until the buffer is \<^emph>\<open>longer\<close> than the end-of-line marker and
  ends with it. It returns the line, the number of bytes read, and the reader's error.
\<close>

definition line_done :: "bytes \<Rightarrow> bool" where
  "line_done buf \<longleftrightarrow> length buf > length EOL \<and> lastn (length EOL) buf = EOL"

function simpleUnmarshal_loop :: "rid \<Rightarrow> bytes \<Rightarrow> heap \<Rightarrow> (bytes \<times> int \<times> error option) \<times> heap" where
  "simpleUnmarshal_loop r buf h =
     (case hread r 1 h of
        ((b, Some err), h') \<Rightarrow> (([], int (length buf), Some err), h')
      | ((b, None), h') \<Rightarrow>
          let buf' = buf @ b in
          if line_done buf' then ((take (length buf' - length EOL) buf', int (length buf'), None), h')
          else simpleUnmarshal_loop r buf' h')"
  by pat_completeness auto
termination
  by (relation "measure (\<lambda>(r, buf, h). hfuel r h)") (auto dest!: hread_ok [OF sym])

declare simpleUnmarshal_loop.simps [simp del]

definition simpleUnmarshal :: "rid \<Rightarrow> heap \<Rightarrow> (bytes \<times> int \<times> error option) \<times> heap" where
  "simpleUnmarshal r h = simpleUnmarshal_loop r [] h"

subsection \<open>Decoding: one message\<close>

text \<open>
  One pass of the loop of \<open>Iterate\<close> either yields a pair to the consumer and returns, or assembles a
  message \<open>m\<close> and goes on with the next one. \<open>m\<close> is local to the pass: nothing hands it on.
\<close>

datatype pass = Yield message "error option" | Assembled message

definition decode_simple :: "Kind \<Rightarrow> bytes \<Rightarrow> int \<Rightarrow> pass" where
  "decode_simple k str sz =
     (let ok = (\<lambda>m. Assembled (set_TotalMessageSize (1 + sz) m)) in
      if k = kSimpleString then ok (SimpleString str)
      else if k = kError then ok (Error str)
      else if k = kInt then
        (case ParseInt str of Inl err \<Rightarrow> Yield zero_msg (Some err) | Inr i \<Rightarrow> ok (Int_msg i))
      else if k = kNull then ok Null
      else if k = kBool then
        (case ParseBool str of Inl err \<Rightarrow> Yield zero_msg (Some err) | Inr b \<Rightarrow> ok (Bool b))
      else if k = kDouble then
        (case ParseFloat str of Inl err \<Rightarrow> Yield zero_msg (Some err) | Inr f \<Rightarrow> ok (Double f))
      else if k = kBigNumber then
        (case BigInt_SetString str of None \<Rightarrow> Yield zero_msg None | Some i \<Rightarrow> ok (BigNumber (Some i)))
      else ok zero_msg)"

text \<open>
  The aggregate case after the run length is known: the kind of \<open>m\<close> is never set, so it stays 0.
  The \<open>for\<close> loops over the run length only assign the same lazy iterator again and again.
\<close>

definition decode_body :: "rid \<Rightarrow> Kind \<Rightarrow> int \<Rightarrow> int \<Rightarrow> bytes \<Rightarrow> heap \<Rightarrow> pass \<times> heap" where
  "decode_body r k tot runlength encoding h =
     (let (rd, h') =
        (if k \<in> {kVerbatimString, kBulkString, kBulkError}
         then (let (a, h') = LimitReader r runlength h in (Some a, h')) else (None, h));
        sq = (if k \<in> {kArray, kSet, kPush} \<and> 0 < runlength then IterateSeq r else NilSeq);
        as = (if k \<in> {kMap, kAttribute} \<and> 0 < runlength then ChunkAssoc r else NilAssoc)
      in (Assembled (Message CHR 0x00 [] None 0 False 0 None tot runlength rd encoding sq as), h'))"

definition decode_aggregate :: "rid \<Rightarrow> Kind \<Rightarrow> heap \<Rightarrow> pass \<times> heap" where
  "decode_aggregate r k h =
     (case simpleUnmarshal r h of
        ((str, sz, Some err), h1) \<Rightarrow> (Yield zero_msg (Some err), h1)
      | ((str, sz, None), h1) \<Rightarrow>
          (case ParseInt str of
             Inl err \<Rightarrow> (Yield zero_msg (Some err), h1)
           | Inr runlength \<Rightarrow>
               let tot = wrap64 (1 + sz + runlength) in
               if k = kVerbatimString then
                 (case simpleUnmarshal r h1 of
                    ((enc, sz', Some err), h2) \<Rightarrow> (Yield zero_msg (Some err), h2)
                  | ((enc, sz', None), h2) \<Rightarrow>
                      if length enc \<noteq> 3
                      then (Yield zero_msg (Some (Errorf ''invalid string size: %d'' [])), h2)
                      else decode_body r k (wrap64 (tot + 3)) runlength enc h2)
               else decode_body r k tot runlength (replicate 3 CHR 0x00) h1))"

definition iterate_pass :: "rid \<Rightarrow> heap \<Rightarrow> pass \<times> heap" where
  "iterate_pass r h =
     (case hread r 1 h of
        ((b, Some err), h1) \<Rightarrow> (Yield zero_msg (Some err), h1)
      | ((b, None), h1) \<Rightarrow>
          let k = (case b of [] \<Rightarrow> CHR 0x00 | c # _ \<Rightarrow> c) in
          if Category k = CategorySimple then
            (case simpleUnmarshal r h1 of
               ((str, sz, Some err), h2) \<Rightarrow> (Yield zero_msg (Some err), h2)
             | ((str, sz, None), h2) \<Rightarrow> (decode_simple k str sz, h2))
          else if Category k = CategoryAggregate then decode_aggregate r k h1
          else (Assembled zero_msg, h1))"

subsection \<open>The line contract\<close>

text \<open>The line a byte sequence starts with, as \<open>simpleUnmarshal\<close> sees it, and what follows it.\<close>

fun line_from :: "bytes \<Rightarrow> bytes \<Rightarrow> (bytes \<times> bytes) option" where
  "line_from buf [] = None"
| "line_from buf (c # cs) =
     (if line_done (buf @ [c]) then Some (take (length buf + 1 - length EOL) (buf @ [c]), cs)
      else line_from (buf @ [c]) cs)"

lemma simpleUnmarshal_loop_line:
  assumes "\<not> line_done buf"
  shows "case line_from buf (hleft r h) of
      Some (line, tail) \<Rightarrow> \<exists>h'. simpleUnmarshal_loop r buf h = ((line, int (length line + 2), None), h') \<and>
        hleft r h' = tail \<and> hfin r h' = hfin r h \<and> hfuel r h' \<le> hfuel r h
    | None \<Rightarrow> \<exists>h' n. simpleUnmarshal_loop r buf h = (([], n, Some (hfin r h)), h') \<and>
        hleft r h' = [] \<and> hfin r h' = hfin r h \<and> hfuel r h' \<le> hfuel r h"
  using assms
proof (induction r buf h rule: simpleUnmarshal_loop.induct)
  case (1 r buf h)
  show ?case
  proof (cases rule: hp.read_cases [of r 1 h])
    case fail
    then show ?thesis by (simp add: simpleUnmarshal_loop.simps [of r buf h])
  next
    case (ok b h1)
    show ?thesis
    proof (cases b)
      case Nil
      then have "simpleUnmarshal_loop r buf h = simpleUnmarshal_loop r buf h1"
        using ok 1(2) by (simp add: simpleUnmarshal_loop.simps [of r buf h] Let_def)
      then show ?thesis
        using 1(1) [OF ok(1) [symmetric] refl refl refl] ok Nil 1(2)
        by (fastforce split: option.splits)
    next
      case (Cons c cs)
      then have b: "b = [c]" "hleft r h = c # hleft r h1" using ok by auto
      show ?thesis
      proof (cases "line_done (buf @ [c])")
        case True
        then show ?thesis
          using ok b by (auto simp: simpleUnmarshal_loop.simps [of r buf h] Let_def line_done_def)
      next
        case False
        then have "simpleUnmarshal_loop r buf h = simpleUnmarshal_loop r (buf @ [c]) h1"
          using ok b by (simp add: simpleUnmarshal_loop.simps [of r buf h] Let_def)
        then show ?thesis
          using 1(1) [OF ok(1) [symmetric] refl refl refl] ok b False
          by (fastforce split: option.splits)
      qed
    qed
  qed
qed

lemma not_line_done_Nil [simp]: "\<not> line_done []"
  by (simp add: line_done_def)

lemma simpleUnmarshal_line:
  "line_from [] (hleft r h) = Some (line, tail) \<Longrightarrow>
   \<exists>h'. simpleUnmarshal r h = ((line, int (length line + 2), None), h') \<and> hleft r h' = tail \<and>
        hfin r h' = hfin r h \<and> hfuel r h' \<le> hfuel r h"
  using simpleUnmarshal_loop_line [of "[]" r h] by (simp add: simpleUnmarshal_def)

lemma simpleUnmarshal_none:
  "line_from [] (hleft r h) = None \<Longrightarrow>
   \<exists>h' n. simpleUnmarshal r h = (([], n, Some (hfin r h)), h') \<and> hleft r h' = [] \<and>
        hfin r h' = hfin r h \<and> hfuel r h' \<le> hfuel r h"
  using simpleUnmarshal_loop_line [of "[]" r h] by (simp add: simpleUnmarshal_def)

lemma simpleUnmarshal_fuel:
  "simpleUnmarshal r h = (x, h') \<Longrightarrow> hfuel r h' \<le> hfuel r h \<and> hfin r h' = hfin r h"
  using simpleUnmarshal_line [of r h] simpleUnmarshal_none [of r h]
  by (cases "line_from [] (hleft r h)") fastforce+

lemma decode_body_fuel:
  "decode_body r k t n enc h = (x, h') \<Longrightarrow> hfuel r h' = hfuel r h \<and> hfin r h' = hfin r h \<and> hleft r h' = hleft r h"
  by (auto simp: decode_body_def Let_def LimitReader_view split: prod.splits if_splits)

lemma decode_aggregate_fuel:
  "decode_aggregate r k h = (x, h') \<Longrightarrow> hfuel r h' \<le> hfuel r h \<and> hfin r h' = hfin r h"
  unfolding decode_aggregate_def
  by (auto simp: Let_def split: prod.splits option.splits sum.splits if_splits
      dest!: simpleUnmarshal_fuel decode_body_fuel)

lemma iterate_pass_fuel:
  assumes "iterate_pass r h = (x, h')"
  shows "hfin r h' = hfin r h" and "x = Assembled m \<Longrightarrow> hfuel r h' < hfuel r h"
proof -
  obtain b e h1 where b: "hread r 1 h = ((b, e), h1)" by (metis surj_pair)
  have *: "hfin r h' = hfin r h \<and> (\<forall>m. x = Assembled m \<longrightarrow> hfuel r h' < hfuel r h)"
  proof (cases e)
    case None
    note ok = hread_ok [OF b [unfolded None]]
    from assms b None show ?thesis
      using ok unfolding iterate_pass_def
      by (auto simp: Let_def split: prod.splits option.splits if_splits list.splits
          dest!: simpleUnmarshal_fuel decode_aggregate_fuel)
  next
    case (Some err)
    with assms b show ?thesis
      using hread_fail [OF b [unfolded Some]] by (auto simp: iterate_pass_def)
  qed
  then show "hfin r h' = hfin r h" and "x = Assembled m \<Longrightarrow> hfuel r h' < hfuel r h" by auto
qed

subsection \<open>Decoding: the loop\<close>

text \<open>
  \<open>Iterate\<close> run to its end: the pairs it yields. Every yield is followed by a return, so there is at
  most one; a pass that only assembles a message starts the next one. \<open>Decode\<close> returns the first pair.
\<close>

function Iterate :: "rid \<Rightarrow> heap \<Rightarrow> (message \<times> error option) list \<times> heap" where
  "Iterate r h =
     (case iterate_pass r h of
        (Yield m err, h') \<Rightarrow> ([(m, err)], h')
      | (Assembled m, h') \<Rightarrow> Iterate r h')"
  by pat_completeness auto
termination
  by (relation "measure (\<lambda>(r, h). hfuel r h)") (auto dest!: iterate_pass_fuel(2) [OF sym])

declare Iterate.simps [simp del]

definition Decode :: "rid \<Rightarrow> heap \<Rightarrow> (message \<times> error option) \<times> heap" where
  "Decode r h =
     (case Iterate r h of
        (x # _, h') \<Rightarrow> (x, h')
      | ([], h') \<Rightarrow> ((zero_msg, Some (Errorf ''reader closed before message could be read'' [])), h'))"

text \<open>
  \<open>chunk\<close>: the pairs it yields for a sequence of yielded elements. An element with an error yields the
  pair as it stands with that error and is then stored like any other; the result of \<open>yield\<close> is ignored.
\<close>

fun chunk_from :: "nat \<Rightarrow> message \<times> message \<Rightarrow> (message \<times> error option) list \<Rightarrow>
    ((message \<times> message) \<times> error option) list" where
  "chunk_from i kv [] = []"
| "chunk_from i kv ((msg, err) # xs) =
     (let kv' = (if i mod 2 = 0 then (msg, snd kv) else (fst kv, msg)) in
      (if err \<noteq> None then [(kv, err)] else []) @
      (if Suc i mod 2 = 0 then [(kv', None)] else []) @
      chunk_from (Suc i) kv' xs)"

definition chunk :: "(message \<times> error option) list \<Rightarrow> ((message \<times> message) \<times> error option) list" where
  "chunk xs = chunk_from 0 (zero_msg, zero_msg) xs"

subsection \<open>Encoding\<close>

text \<open>
  An encoding step takes the heap and the writer, and returns how many bytes it wrote and an error.
  \<open>enc_then\<close> is the idiom \<^verbatim>\<open>n, err = step(); total += n; if err != nil { return }\<close>.
\<close>

type_synonym enc = "heap \<times> writer \<Rightarrow> ((nat \<times> error option) \<times> heap \<times> writer) go"

definition enc_skip :: enc where
  "enc_skip st = Ret ((0, None), st)"

definition enc_fail :: "error \<Rightarrow> enc" where
  "enc_fail err st = Ret ((0, Some err), st)"

definition enc_panic :: "string \<Rightarrow> enc" where
  "enc_panic s st = Panic s"

definition put :: "bytes \<Rightarrow> enc" where
  "put p = (\<lambda>(h, w). let (r, w') = Write p w in Ret (r, (h, w')))"

definition enc_then :: "enc \<Rightarrow> enc \<Rightarrow> enc" where
  "enc_then a b st =
     go_bind (a st) (\<lambda>((n, err), st').
       case err of
         Some er \<Rightarrow> Ret ((n, Some er), st')
       | None \<Rightarrow> go_bind (b st') (\<lambda>((n', err'), st''). Ret ((n + n', err'), st'')))"

text \<open>
  \<open>make\<close> panics for a negative length. That it also panics or runs out of memory for lengths the machine cannot provide is
  not modelled: here every other length can be allocated.
\<close>

definition emptyBuffer :: "int \<Rightarrow> int \<Rightarrow> bytes go" where
  "emptyBuffer chunkSize runLength =
     (let bufferSize = (if chunkSize < 1 then 409 else chunkSize);
          len = (if runLength > bufferSize then bufferSize else runLength)
      in if len < 0 then Panic ''makeslice: len out of range'' else Ret (replicate (nat len) CHR 0x00))"

definition simpleToByte :: "message \<Rightarrow> (error + bytes) go" where
  "simpleToByte m =
     (let k = msgKind m; ok = (\<lambda>body. Ret (Inr (body @ EOL))) in
      if k = kSimpleString then ok (msgSimpleString m)
      else if k = kInt then ok (FormatInt (msgInt m))
      else if k = kBool then ok (FormatBool (msgBool m))
      else if k = kError then
        (case msgError m of
           Some e \<Rightarrow> Ret (Inl (Errorf ''empty Error field for Error type message %s'' []))
         | None \<Rightarrow> Panic ''nil pointer dereference'')
      else if k = kDouble then ok (FormatFloat (msgDouble m))
      else if k = kBigNumber then ok (BigInt_String (msgBigNumber m))
      else ok [])"

text \<open>The copy loop of \<open>writeBulk\<close> and the final end-of-line marker.\<close>

function writeBulk_loop :: "Encoder \<Rightarrow> rid \<Rightarrow> int \<Rightarrow> nat \<Rightarrow> enc" where
  "writeBulk_loop e r left tot (h, w) =
     (if left \<le> 0 then
        go_bind (put EOL (h, w)) (\<lambda>((n, err), st). Ret ((tot + n, err), st))
      else case emptyBuffer (ChunkSize e) left of
        Panic s \<Rightarrow> Panic s
      | Blocked \<Rightarrow> Blocked
      | Ret b \<Rightarrow>
          (case hread r (length b) h of
             ((p, Some err), h') \<Rightarrow> Ret ((tot, Some err), (h', w))
           | ((p, None), h') \<Rightarrow>
               (case Write p w of
                  ((n, Some err), w') \<Rightarrow> Ret ((tot + n, Some err), (h', w'))
                | ((n, None), w') \<Rightarrow> writeBulk_loop e r (left - int n) (tot + n) (h', w'))))"
  by pat_completeness auto
termination
  by (relation "measure (\<lambda>(e, r, left, tot, (h, w)). hfuel r h)")
    (auto dest!: hread_ok [OF sym] simp: emptyBuffer_def Let_def split: if_splits)

declare writeBulk_loop.simps [simp del]

definition writeBulk :: "Encoder \<Rightarrow> message \<Rightarrow> enc" where
  "writeBulk e m =
     (if msgRunLength m \<le> 0 then put EOL
      else case msgReader m of
             None \<Rightarrow> enc_panic ''nil pointer dereference''
           | Some r \<Rightarrow> writeBulk_loop e r (msgRunLength m) 0)"

text \<open>
  The iterators that decode a reader lazily. What they yield is \<open>Message{}\<close>, whose kind byte belongs
  to no category: \<open>Encode\<close> writes that byte and nothing else. The loop over \<open>m.Assoc\<close> overwrites the
  yielded error before looking at it.
\<close>

definition encode_iterate :: "rid \<Rightarrow> enc" where
  "encode_iterate r = (\<lambda>(h, w).
     case Iterate r h of
       ([], h') \<Rightarrow> enc_skip (h', w)
     | ((m, Some err) # _, h') \<Rightarrow> enc_fail err (h', w)
     | ((m, None) # _, h') \<Rightarrow> put [msgKind m] (h', w))"

definition encode_chunk :: "rid \<Rightarrow> enc" where
  "encode_chunk r = (\<lambda>(h, w).
     case Iterate r h of
       (xs, h') \<Rightarrow>
         foldr (\<lambda>((k, v), err) rest. enc_then (put [msgKind k]) (enc_then (put [msgKind v]) rest))
           (chunk xs) enc_skip (h', w))"

fun Encode :: "Encoder \<Rightarrow> message \<Rightarrow> enc"
  and encode_list :: "Encoder \<Rightarrow> message list \<Rightarrow> enc"
  and encode_pairs :: "Encoder \<Rightarrow> message list \<Rightarrow> enc" where
  "Encode e (Message k ss er i b d bn tms rl rd enc sq as) =
     (let m = Message k ss er i b d bn tms rl rd enc sq as in
      enc_then (put [k])
       (if Category k = CategorySimple then
          (case simpleToByte m of
             Ret (Inl err) \<Rightarrow> enc_fail err
           | Ret (Inr body) \<Rightarrow> put body
           | Panic s \<Rightarrow> enc_panic s
           | Blocked \<Rightarrow> (\<lambda>st. Blocked))
        else if Category k = CategoryAggregate then
          enc_then (put (FormatInt rl))
           (enc_then (put EOL)
             (enc_then (if k = kVerbatimString then enc_then (put enc) (put EOL) else enc_skip)
               (if k \<in> {kBulkString, kBulkError, kVerbatimString} then writeBulk e m
                else if k \<in> {kArray, kPush, kSet} then
                  (case sq of
                     NilSeq \<Rightarrow> enc_panic ''nil pointer dereference''
                   | SliceSeq ms \<Rightarrow> encode_list e ms
                   | IterateSeq r \<Rightarrow> encode_iterate r)
                else
                  (case as of
                     NilAssoc \<Rightarrow> enc_panic ''nil pointer dereference''
                   | PairsAssoc kvs \<Rightarrow> encode_pairs e kvs
                   | ChunkAssoc r \<Rightarrow> encode_chunk r))))
        else enc_skip))"
| "encode_list e [] = enc_skip"
| "encode_list e (m # ms) = enc_then (Encode e m) (encode_list e ms)"
| "encode_pairs e [] = enc_skip"
| "encode_pairs e [k] = enc_panic ''index out of range''"
| "encode_pairs e (k # v # kvs) = enc_then (Encode e k) (enc_then (Encode e v) (encode_pairs e kvs))"

end
