(* ===== verification/Wire.thy ===== *)
theory Wire
  imports Coder
begin

text \<open>
  What the encoder promises. A RESP value (\<open>resp\<close>) has a wire form (\<open>wire\<close>), written down directly
  from the message formats; \<open>repr\<close> says that a message the package's constructors built stands for a
  value, its bulk payloads being in-memory readers of their own. The main result is a refinement: encoding such a
  message behaves exactly as one \<open>Write\<close> of the value's wire form, whatever the encoder's chunk
  size, however the payload readers split their content, and whether or not the writer fails half-way.
\<close>

subsection \<open>Steps that act as one write\<close>

lemma Write_append:
  "Write (bs @ cs) w =
     (case Write bs w of
        ((n, Some err), w') \<Rightarrow> ((n, Some err), w')
      | ((n, None), w') \<Rightarrow> (case Write cs w' of ((n', err'), w'') \<Rightarrow> ((n + n', err'), w'')))"
  by (auto simp: Write_def split: option.splits if_splits prod.splits)

lemma Write_Nil [simp]: "Write [] w = ((0, None), w)"
  by (cases w) (simp add: Write_def split: option.split)

text \<open>\<open>enc_emits a h bs P\<close>: from the heap \<open>h\<close>, step \<open>a\<close> acts on every writer as a single write of
  \<open>bs\<close>, and where that succeeds the heap satisfies \<open>P\<close> afterwards.\<close>

definition enc_emits :: "enc \<Rightarrow> heap \<Rightarrow> bytes \<Rightarrow> (heap \<Rightarrow> bool) \<Rightarrow> bool" where
  "enc_emits a h bs P \<longleftrightarrow>
     (\<forall>w. \<exists>h'. a (h, w) = Ret (fst (Write bs w), (h', snd (Write bs w))) \<and>
        (snd (fst (Write bs w)) = None \<longrightarrow> P h'))"

lemma emits_put: "P h \<Longrightarrow> enc_emits (put bs) h bs P"
  by (auto simp: enc_emits_def put_def split: prod.splits)

lemma emits_skip: "P h \<Longrightarrow> enc_emits enc_skip h [] P"
  by (auto simp: enc_emits_def enc_skip_def)

lemma emits_then:
  assumes a: "enc_emits a h bs P" and b: "\<And>h'. P h' \<Longrightarrow> enc_emits b h' cs Q"
  shows "enc_emits (enc_then a b) h (bs @ cs) Q"
  unfolding enc_emits_def
proof
  fix w
  obtain n err w' where w: "Write bs w = ((n, err), w')" by (metis surj_pair)
  from a obtain h1 where h1: "a (h, w) = Ret ((n, err), (h1, w'))" "err = None \<longrightarrow> P h1"
    unfolding enc_emits_def by (metis fst_conv snd_conv w)
  show "\<exists>h'. enc_then a b (h, w) = Ret (fst (Write (bs @ cs) w), (h', snd (Write (bs @ cs) w))) \<and>
      (snd (fst (Write (bs @ cs) w)) = None \<longrightarrow> Q h')"
  proof (cases err)
    case (Some e)
    with h1 w show ?thesis by (auto simp: enc_then_def Write_append)
  next
    case None
    obtain n' err' w'' where w'': "Write cs w' = ((n', err'), w'')" by (metis surj_pair)
    from b [of h1] h1 None obtain h2 where
      "b (h1, w') = Ret ((n', err'), (h2, w''))" "err' = None \<longrightarrow> Q h2"
      unfolding enc_emits_def by (metis fst_conv snd_conv w'')
    with None h1 w w'' show ?thesis by (auto simp: enc_then_def Write_append)
  qed
qed

lemma emits_mono: "enc_emits a h bs P \<Longrightarrow> (\<And>h'. P h' \<Longrightarrow> Q h') \<Longrightarrow> enc_emits a h bs Q"
  unfolding enc_emits_def by meson

text \<open>The heaps agree outside the addresses from \<open>a\<close> up to \<open>b\<close>.\<close>

definition same_outside :: "rid \<Rightarrow> rid \<Rightarrow> heap \<Rightarrow> heap \<Rightarrow> bool" where
  "same_outside a b h h' \<longleftrightarrow> (\<forall>i. i < a \<or> b \<le> i \<longrightarrow> objs h' i = objs h i)"

subsection \<open>Copying a payload\<close>

lemma emptyBuffer_positive:
  "0 < n \<Longrightarrow> \<exists>b. emptyBuffer c n = Ret b \<and> 0 < length b \<and> int (length b) \<le> n"
  by (auto simp: emptyBuffer_def Let_def)

lemma writeBulk_loop_step:
  assumes "\<not> left \<le> 0" "emptyBuffer (ChunkSize e) left = Ret b"
  shows "writeBulk_loop e r left tot (h, w) =
    (case hread r (length b) h of
       ((p, Some err), h') \<Rightarrow> Ret ((tot, Some err), (h', w))
     | ((p, None), h') \<Rightarrow>
         (case Write p w of
            ((n, Some err), w') \<Rightarrow> Ret ((tot + n, Some err), (h', w'))
          | ((n, None), w') \<Rightarrow> writeBulk_loop e r (left - int n) (tot + n) (h', w')))"
  using assms by (subst writeBulk_loop.simps) (simp only: if_False go.case)

lemma writeBulk_loop_emits:
  assumes "objs h r = Src s" "nat left \<le> length (hleft r h)"
  shows "\<exists>h'. writeBulk_loop e r left tot (h, w) =
      (case Write (take (nat left) (hleft r h) @ EOL) w of
         ((n, err), w') \<Rightarrow> Ret ((tot + n, err), (h', w'))) \<and> same_outside r (Suc r) h h'"
  using assms
proof (induction e r left tot "(h, w)" arbitrary: h w s rule: writeBulk_loop.induct)
  case (1 e r left tot h w)
  show ?case
  proof (cases "left \<le> 0")
    case True
    then show ?thesis
      by (auto simp: writeBulk_loop.simps [of e r left tot h w] put_def same_outside_def split: prod.splits)
  next
    case False
    then obtain b where b: "emptyBuffer (ChunkSize e) left = Ret b" "0 < length b" "int (length b) \<le> left"
      using emptyBuffer_positive by (meson not_le)
    have "hleft r h \<noteq> []" using False 1(3) by auto
    then obtain p h1 where p: "hread r (length b) h = ((p, None), h1)" by (blast dest: hread_end)
    note ok = hread_ok [OF p]
    obtain s' where s': "objs h1 r = Src s'" and fr: "same_outside r (Suc r) h h1"
      using hread_Src_frame [OF 1(2) p] by (auto simp: same_outside_def)
    have split: "take (nat left) (hleft r h) = p @ take (nat (left - int (length p))) (hleft r h1)"
      using ok b by (auto simp: nat_diff_distrib)
    obtain n err w1 where w1: "Write p w = ((n, err), w1)" by (metis surj_pair)
    show ?thesis
    proof (cases err)
      case (Some er)
      with p w1 split fr show ?thesis
        by (auto simp: writeBulk_loop_step [OF False b(1)] Write_append)
    next
      case None
      then have n: "n = length p" using wr.write_all w1 by blast
      have IH: "\<exists>h'. writeBulk_loop e r (left - int n) (tot + n) (h1, w1) =
          (case Write (take (nat (left - int n)) (hleft r h1) @ EOL) w1 of
             ((m, err), w') \<Rightarrow> Ret ((tot + n + m, err), (h', w'))) \<and> same_outside r (Suc r) h1 h'"
        using 1(1) [OF False b(1) p [symmetric] refl refl w1 [unfolded None, symmetric] refl refl s'] ok n 1(3)
        by auto
      have "writeBulk_loop e r left tot (h, w) = writeBulk_loop e r (left - int n) (tot + n) (h1, w1)"
        using p w1 None by (simp add: writeBulk_loop_step [OF False b(1)])
      with IH fr w1 None n split show ?thesis
        by (auto simp: Write_append same_outside_def split: prod.splits)
    qed
  qed
qed

text \<open>With a reader that runs dry, everything there was is copied and the reader's error returned.\<close>

lemma writeBulk_loop_short:
  assumes "length (hleft r h) < nat left"
  shows "\<exists>h' n err. writeBulk_loop e r left tot (h, w) =
      Ret ((tot + n, Some err), (h', snd (Write (hleft r h) w))) \<and> fst (fst (Write (hleft r h) w)) = n \<and>
      (snd (fst (Write (hleft r h) w)) = None \<longrightarrow> err = hfin r h)"
  using assms
proof (induction e r left tot "(h, w)" arbitrary: h w rule: writeBulk_loop.induct)
  case (1 e r left tot h w)
  then have left: "0 < left" and nl: "\<not> left \<le> 0" by auto
  then obtain b where b: "emptyBuffer (ChunkSize e) left = Ret b" "0 < length b" "int (length b) \<le> left"
    using emptyBuffer_positive by blast
  show ?case
  proof (cases rule: hp.read_cases [of r "length b" h])
    case fail
    then show ?thesis by (simp add: writeBulk_loop_step [OF nl b(1)])
  next
    case (ok p h1)
    obtain n err w1 where w1: "Write p w = ((n, err), w1)" by (metis surj_pair)
    show ?thesis
    proof (cases err)
      case (Some er)
      with ok w1 show ?thesis
        by (auto simp: writeBulk_loop_step [OF nl b(1)] Write_append)
    next
      case None
      then have n: "n = length p" using wr.write_all w1 by blast
      have lt: "length (hleft r h1) < nat (left - int n)" using 1(2) ok n by auto
      obtain h' m er where "writeBulk_loop e r (left - int n) (tot + n) (h1, w1) =
            Ret ((tot + n + m, Some er), (h', snd (Write (hleft r h1) w1)))"
          "fst (fst (Write (hleft r h1) w1)) = m"
          "snd (fst (Write (hleft r h1) w1)) = None \<longrightarrow> er = hfin r h1"
        using 1(1) [OF nl b(1) ok(1) [symmetric] refl refl w1 [unfolded None, symmetric] refl refl lt]
        by (elim exE conjE) (rule that)
      moreover have "writeBulk_loop e r left tot (h, w) = writeBulk_loop e r (left - int n) (tot + n) (h1, w1)"
        using ok w1 None by (simp add: writeBulk_loop_step [OF nl b(1)])
      ultimately show ?thesis using ok w1 None by (auto simp: Write_append split: prod.splits)
    qed
  qed
qed

subsection \<open>Values and their wire form\<close>

datatype resp =
    RSimple string
  | RInt int
  | RNull
  | RBool bool
  | RDouble float64
  | RBig int
  | RBulk bytes
  | RBulkError bytes
  | RVerbatim bytes bytes
  | RArray "resp list"
  | RSet "resp list"
  | RMap "resp list"

definition frame :: "Kind \<Rightarrow> bytes \<Rightarrow> bytes" where
  "frame k body = k # body @ EOL"

text \<open>
  The format the encoder means to write. It is that of \<^verbatim>\<open>coder.go\<close>, which is RESP3 for most kinds but not for all: RESP3 has
  \<^verbatim>\<open>#t\<close> and \<^verbatim>\<open>#f\<close> for booleans where the code writes the words, \<^verbatim>\<open>inf\<close> where \<open>FormatFloat\<close> gives \<^verbatim>\<open>+Inf\<close>, and a colon
  between the encoding and the text of a verbatim string, both counted in its length, where the code has a line end.
\<close>

fun wire :: "resp \<Rightarrow> bytes" where
  "wire (RSimple s) = frame kSimpleString s"
| "wire (RInt i) = frame kInt (FormatInt i)"
| "wire RNull = frame kNull []"
| "wire (RBool b) = frame kBool (FormatBool b)"
| "wire (RDouble f) = frame kDouble (FormatFloat f)"
| "wire (RBig i) = frame kBigNumber (FormatInt i)"
| "wire (RBulk b) = frame kBulkString (FormatInt (int (length b))) @ b @ EOL"
| "wire (RBulkError b) = frame kBulkError (FormatInt (int (length b))) @ b @ EOL"
| "wire (RVerbatim enc b) = frame kVerbatimString (FormatInt (int (length b))) @ enc @ EOL @ b @ EOL"
| "wire (RArray vs) = frame kArray (FormatInt (int (length vs))) @ concat (map wire vs)"
| "wire (RSet vs) = frame kSet (FormatInt (int (length vs))) @ concat (map wire vs)"
| "wire (RMap kvs) = frame kMap (FormatInt (int (length kvs div 2))) @ concat (map wire kvs)"

text \<open>
  \<open>repr h v m a b\<close>: in the heap \<open>h\<close>, the message \<open>m\<close> stands for the value \<open>v\<close>; its payload readers
  are sources at addresses from \<open>a\<close> up to \<open>b\<close>, each used once. A map value lists its keys and values alternately.
\<close>

inductive repr :: "heap \<Rightarrow> resp \<Rightarrow> message \<Rightarrow> rid \<Rightarrow> rid \<Rightarrow> bool"
  and reprs :: "heap \<Rightarrow> resp list \<Rightarrow> message list \<Rightarrow> rid \<Rightarrow> rid \<Rightarrow> bool" where
  repr_simple: "repr h (RSimple s) (SimpleString s) a a"
| repr_int: "repr h (RInt i) (Int_msg i) a a"
| repr_null: "repr h RNull Null a a"
| repr_bool: "repr h (RBool b) (Bool b) a a"
| repr_double: "repr h (RDouble f) (Double f) a a"
| repr_big: "repr h (RBig i) (BigNumber (Some i)) a a"
| repr_bulk: "objs h r = Src s \<Longrightarrow> repr h (RBulk (rest s)) (BulkString r (int (length (rest s)))) r (Suc r)"
| repr_bulkerror: "objs h r = Src s \<Longrightarrow> repr h (RBulkError (rest s)) (BulkError r (int (length (rest s)))) r (Suc r)"
| repr_verbatim: "objs h r = Src s \<Longrightarrow>
    repr h (RVerbatim enc (rest s)) (VerbatimString r (int (length (rest s))) enc) r (Suc r)"
| repr_array: "reprs h vs ms a b \<Longrightarrow> repr h (RArray vs) (Array ms) a b"
| repr_set: "reprs h vs ms a b \<Longrightarrow> repr h (RSet vs) (Set ms) a b"
| repr_map: "reprs h kvs ms a b \<Longrightarrow> Map ms = Ret m \<Longrightarrow> repr h (RMap kvs) m a b"
| reprs_nil: "reprs h [] [] a a"
| reprs_cons: "repr h v m a b \<Longrightarrow> reprs h vs ms b c \<Longrightarrow> reprs h (v # vs) (m # ms) a c"

lemma reprs_length: "reprs h vs ms a b \<Longrightarrow> length vs = length ms"
  by (induction vs arbitrary: ms a) (auto elim: reprs.cases)

lemma repr_le: "repr h v m a b \<Longrightarrow> a \<le> b" and reprs_le: "reprs h vs ms a b \<Longrightarrow> a \<le> b"
  by (induction rule: repr_reprs.inducts) auto

subsection \<open>Encoding refines one write of the wire form\<close>

lemma same_outside_refl [simp]: "same_outside a b h h"
  by (simp add: same_outside_def)

lemma emits_simple:
  assumes "simpleToByte m = Ret (Inr body)" "Category (msgKind m) = CategorySimple"
  shows "enc_emits (Encode e m) h (msgKind m # body) (\<lambda>h'. h' = h)"
proof -
  have "Encode e m = enc_then (put [msgKind m]) (put body)"
    using assms by (cases m) (simp add: Let_def)
  moreover have "enc_emits (enc_then (put [msgKind m]) (put body)) h ([msgKind m] @ body) (\<lambda>h'. h' = h)"
    by (rule emits_then [OF emits_put emits_put]) auto
  ultimately show ?thesis by simp
qed

lemma emits_scalar:
  assumes "simpleToByte m = Ret (Inr (body @ EOL))" "Category k = CategorySimple" "msgKind m = k"
  shows "\<forall>h0. Q h0 \<longrightarrow> enc_emits (Encode e m) h0 (frame k body) (same_outside a a h0)"
proof (intro allI impI)
  fix h0
  show "enc_emits (Encode e m) h0 (frame k body) (same_outside a a h0)"
    using emits_mono [OF emits_simple [OF assms(1), unfolded assms(3), OF assms(2), of e h0]]
    by (simp add: frame_def)
qed

lemma scalar_simps:
  "simpleToByte (SimpleString s) = Ret (Inr (s @ EOL))"
  "simpleToByte (Int_msg i) = Ret (Inr (FormatInt i @ EOL))"
  "simpleToByte Null = Ret (Inr ([] @ EOL))"
  "simpleToByte (Bool b) = Ret (Inr (FormatBool b @ EOL))"
  "simpleToByte (Double f) = Ret (Inr (FormatFloat f @ EOL))"
  "simpleToByte (BigNumber (Some i)) = Ret (Inr (FormatInt i @ EOL))"
  by (simp_all add: simpleToByte_def kind_defs message_defs BigInt_String_def)

lemma kind_simps:
  "msgKind (SimpleString s) = kSimpleString" "msgKind (Int_msg i) = kInt" "msgKind Null = kNull"
  "msgKind (Bool b) = kBool" "msgKind (Double f) = kDouble" "msgKind (BigNumber x) = kBigNumber"
  by (simp_all add: message_defs)

text \<open>The header every aggregate message starts with.\<close>

lemma emits_header:
  assumes "Category k = CategoryAggregate" "k \<noteq> kVerbatimString"
    and body: "enc_emits body h bs P"
    and "Encode e m = enc_then (put [k]) (enc_then (put (FormatInt n)) (enc_then (put EOL) (enc_then enc_skip body)))"
  shows "enc_emits (Encode e m) h (frame k (FormatInt n) @ bs) P"
proof -
  have "enc_emits (enc_then (put [k]) (enc_then (put (FormatInt n)) (enc_then (put EOL) (enc_then enc_skip body))))
      h ([k] @ FormatInt n @ EOL @ [] @ bs) P"
    by (intro emits_then [where P = "\<lambda>h'. h' = h"] emits_put emits_skip) (use body in auto)
  then show ?thesis using assms(4) by (simp add: frame_def)
qed

lemma emits_bulk:
  assumes "objs h r = Src s" "msgReader m = Some r" "msgRunLength m = int (length (rest s))"
  shows "enc_emits (writeBulk e m) h (rest s @ EOL) (same_outside r (Suc r) h)"
proof (cases "rest s = []")
  case True
  with assms show ?thesis by (auto simp: writeBulk_def intro: emits_put)
next
  case False
  have wb: "writeBulk e m = writeBulk_loop e r (int (length (rest s))) 0"
    using assms False by (simp add: writeBulk_def)
  show ?thesis
    unfolding enc_emits_def
  proof
    fix w
    obtain n err w' where w': "Write (rest s @ EOL) w = ((n, err), w')" by (metis surj_pair)
    show "\<exists>h'. writeBulk e m (h, w) = Ret (fst (Write (rest s @ EOL) w), (h', snd (Write (rest s @ EOL) w))) \<and>
        (snd (fst (Write (rest s @ EOL) w)) = None \<longrightarrow> same_outside r (Suc r) h h')"
      using writeBulk_loop_emits [OF assms(1), of "int (length (rest s))" e 0 w] assms(1)
      by (auto simp: heap_view_Src wb w')
  qed
qed

lemma same_outside_trans:
  "same_outside a b h h1 \<Longrightarrow> same_outside b c h1 h2 \<Longrightarrow> a \<le> b \<Longrightarrow> b \<le> c \<Longrightarrow> same_outside a c h h2"
  by (auto simp: same_outside_def)

text \<open>Which readers a message uses is all that matters of a heap.\<close>

definition same_inside :: "rid \<Rightarrow> rid \<Rightarrow> heap \<Rightarrow> heap \<Rightarrow> bool" where
  "same_inside a b h h' \<longleftrightarrow> (\<forall>i. a \<le> i \<and> i < b \<longrightarrow> objs h' i = objs h i)"

lemma same_inside_refl [simp]: "same_inside a b h h"
  by (simp add: same_inside_def)

lemmas aggregate_simps = category_defs kind_defs message_defs

lemma Encode_Array: "Encode e (Array ms) = enc_then (put [kArray]) (enc_then (put (FormatInt (int (length ms))))
    (enc_then (put EOL) (enc_then enc_skip (encode_list e ms))))"
  by (simp add: aggregate_simps Let_def)

lemma Encode_Set: "Encode e (Set ms) = enc_then (put [kSet]) (enc_then (put (FormatInt (int (length ms))))
    (enc_then (put EOL) (enc_then enc_skip (encode_list e ms))))"
  by (simp add: aggregate_simps Let_def)

lemma Encode_Map: "Map ms = Ret m \<Longrightarrow> Encode e m = enc_then (put [kMap])
    (enc_then (put (FormatInt (int (length ms div 2)))) (enc_then (put EOL) (enc_then enc_skip (encode_pairs e ms))))"
  by (auto simp: aggregate_simps Let_def Map_def split: if_splits)

lemma Encode_BulkString: "Encode e (BulkString r n) = enc_then (put [kBulkString]) (enc_then (put (FormatInt n))
    (enc_then (put EOL) (enc_then enc_skip (writeBulk e (BulkString r n)))))"
  by (simp add: aggregate_simps Let_def)

lemma Encode_BulkError: "Encode e (BulkError r n) = enc_then (put [kBulkError]) (enc_then (put (FormatInt n))
    (enc_then (put EOL) (enc_then enc_skip (writeBulk e (BulkError r n)))))"
  by (simp add: aggregate_simps Let_def)

lemma Encode_VerbatimString: "Encode e (VerbatimString r n enc) = enc_then (put [kVerbatimString])
    (enc_then (put (FormatInt n)) (enc_then (put EOL) (enc_then (enc_then (put enc) (put EOL))
      (writeBulk e (VerbatimString r n enc)))))"
  by (simp add: aggregate_simps Let_def)

lemma encode_pairs_list: "even (length ms) \<Longrightarrow> encode_pairs e ms = encode_list e ms"
  by (induction ms rule: induct_list012) auto

lemma Map_even: "Map ms = Ret m \<Longrightarrow> even (length ms)"
  by (auto simp: Map_def even_iff_mod_2_eq_zero split: if_splits)

lemma repr_emits_both:
  "repr h v m a b \<Longrightarrow>
     (\<forall>h0. same_inside a b h h0 \<longrightarrow> enc_emits (Encode e m) h0 (wire v) (same_outside a b h0))"
  "reprs h vs ms a b \<Longrightarrow>
     (\<forall>h0. same_inside a b h h0 \<longrightarrow> enc_emits (encode_list e ms) h0 (concat (map wire vs)) (same_outside a b h0))"
proof (induction rule: repr_reprs.inducts)
  case (repr_simple h s a)
  show ?case unfolding wire.simps by (rule emits_scalar [OF scalar_simps(1) _ kind_simps(1)]) simp
next
  case (repr_int h i a)
  show ?case unfolding wire.simps by (rule emits_scalar [OF scalar_simps(2) _ kind_simps(2)]) simp
next
  case (repr_null h a)
  show ?case unfolding wire.simps by (rule emits_scalar [OF scalar_simps(3) _ kind_simps(3)]) simp
next
  case (repr_bool h b a)
  show ?case unfolding wire.simps by (rule emits_scalar [OF scalar_simps(4) _ kind_simps(4)]) simp
next
  case (repr_double h f a)
  show ?case unfolding wire.simps by (rule emits_scalar [OF scalar_simps(5) _ kind_simps(5)]) simp
next
  case (repr_big h i a)
  show ?case unfolding wire.simps by (rule emits_scalar [OF scalar_simps(6) _ kind_simps(6)]) simp
next
  case (repr_bulk h r s)
  show ?case
  proof (intro allI impI)
    fix h0 assume "same_inside r (Suc r) h h0"
    with repr_bulk have "objs h0 r = Src s" by (simp add: same_inside_def)
    then have "enc_emits (writeBulk e (BulkString r (int (length (rest s))))) h0 (rest s @ EOL) (same_outside r (Suc r) h0)"
      by (rule emits_bulk) (simp_all add: BulkString_def)
    from emits_header [OF _ _ this Encode_BulkString]
    show "enc_emits (Encode e (BulkString r (int (length (rest s))))) h0 (wire (RBulk (rest s))) (same_outside r (Suc r) h0)"
      by (simp add: category_defs kind_defs)
  qed
next
  case (repr_bulkerror h r s)
  show ?case
  proof (intro allI impI)
    fix h0 assume "same_inside r (Suc r) h h0"
    with repr_bulkerror have "objs h0 r = Src s" by (simp add: same_inside_def)
    then have "enc_emits (writeBulk e (BulkError r (int (length (rest s))))) h0 (rest s @ EOL) (same_outside r (Suc r) h0)"
      by (rule emits_bulk) (simp_all add: BulkError_def)
    from emits_header [OF _ _ this Encode_BulkError]
    show "enc_emits (Encode e (BulkError r (int (length (rest s))))) h0 (wire (RBulkError (rest s))) (same_outside r (Suc r) h0)"
      by (simp add: category_defs kind_defs)
  qed
next
  case (repr_verbatim h r s enc)
  show ?case
  proof (intro allI impI)
    fix h0 assume "same_inside r (Suc r) h h0"
    with repr_verbatim have "objs h0 r = Src s" by (simp add: same_inside_def)
    then have body: "enc_emits (writeBulk e (VerbatimString r (int (length (rest s))) enc)) h0 (rest s @ EOL)
        (same_outside r (Suc r) h0)"
      by (rule emits_bulk) (simp_all add: VerbatimString_def)
    have "enc_emits (Encode e (VerbatimString r (int (length (rest s))) enc)) h0
       ([kVerbatimString] @ FormatInt (int (length (rest s))) @ EOL @ (enc @ EOL) @ rest s @ EOL) (same_outside r (Suc r) h0)"
      unfolding Encode_VerbatimString
      by (intro emits_then [where P = "\<lambda>h'. h' = h0"] emits_put) (use body in auto)
    then show "enc_emits (Encode e (VerbatimString r (int (length (rest s))) enc)) h0
        (wire (RVerbatim enc (rest s))) (same_outside r (Suc r) h0)"
      by (simp add: frame_def)
  qed
next
  case (repr_array h vs ms a b)
  with emits_header [OF _ _ _ Encode_Array] show ?case
    by (auto simp: category_defs kind_defs dest: reprs_length)
next
  case (repr_set h vs ms a b)
  with emits_header [OF _ _ _ Encode_Set] show ?case
    by (auto simp: category_defs kind_defs dest: reprs_length)
next
  case (repr_map h kvs ms a b m)
  with emits_header [OF _ _ _ Encode_Map [OF repr_map(2)]] encode_pairs_list [OF Map_even [OF repr_map(2)]]
  show ?case by (auto simp: category_defs kind_defs dest: reprs_length)
next
  case (reprs_nil h a)
  then show ?case by (auto intro: emits_skip)
next
  case (reprs_cons h v m a b vs ms c)
  show ?case
  proof (intro allI impI)
    fix h0 assume h0: "same_inside a c h h0"
    note le = repr_le [OF reprs_cons(1)] reprs_le [OF reprs_cons(2)]
    have first: "enc_emits (Encode e m) h0 (wire v) (same_outside a b h0)"
      using reprs_cons(3) h0 le by (auto simp: same_inside_def)
    have "enc_emits (encode_list e ms) h1 (concat (map wire vs)) (same_outside a c h0)"
      if h1: "same_outside a b h0 h1" for h1
    proof -
      have "same_inside b c h h1" using h0 h1 le by (auto simp: same_inside_def same_outside_def)
      with reprs_cons(4) have "enc_emits (encode_list e ms) h1 (concat (map wire vs)) (same_outside b c h1)" by blast
      then show ?thesis by (rule emits_mono) (rule same_outside_trans [OF h1 _ le])
    qed
    with first show "enc_emits (encode_list e (m # ms)) h0 (concat (map wire (v # vs))) (same_outside a c h0)"
      by (auto intro: emits_then)
  qed
qed

lemmas repr_emits = repr_emits_both(1) [rule_format, OF _ same_inside_refl]

text \<open>What the protocol package builds for an outgoing command stands for an array of bulk strings.\<close>

lemma NewBulkString_repr:
  assumes "NewBulkString s h = (m, h')"
  shows "repr h' (RBulk s) m (brk h) (brk h')" and "same_outside (brk h) (brk h') h h'" and "brk h \<le> brk h'"
proof -
  have h': "h' = h\<lparr>objs := (objs h)(brk h := Src (mem_reader s)), brk := Suc (brk h)\<rparr>"
    and m: "m = BulkString (brk h) (int (length s))"
    using assms by (auto simp: NewBulkString_def NewBufferString_def new_reader_def)
  show "repr h' (RBulk s) m (brk h) (brk h')"
    using repr_bulk [of h' "brk h" "mem_reader s"] by (simp add: h' m)
  show "same_outside (brk h) (brk h') h h'" "brk h \<le> brk h'"
    by (auto simp: h' same_outside_def)
qed

lemma repr_heap_both:
  "repr h v m a b \<Longrightarrow> same_inside a b h h' \<longrightarrow> repr h' v m a b"
  "reprs h vs ms a b \<Longrightarrow> same_inside a b h h' \<longrightarrow> reprs h' vs ms a b"
proof (induction rule: repr_reprs.inducts)
  case (reprs_cons h v m a b vs ms c)
  show ?case
  proof
    assume "same_inside a c h h'"
    then have "same_inside a b h h'" "same_inside b c h h'"
      using repr_le [OF reprs_cons(1)] reprs_le [OF reprs_cons(2)] by (auto simp: same_inside_def)
    with reprs_cons(3,4) show "reprs h' (v # vs) (m # ms) a c"
      by (blast intro: repr_reprs.reprs_cons)
  qed
qed (auto intro: repr_reprs.intros simp: same_inside_def)

lemma NewBulkStrings_repr:
  "NewBulkStrings args h = (ms, h') \<Longrightarrow>
   reprs h' (map RBulk args) ms (brk h) (brk h') \<and> same_outside (brk h) (brk h') h h' \<and> brk h \<le> brk h'"
proof (induction args arbitrary: h ms)
  case Nil
  then show ?case by (auto intro: repr_reprs.reprs_nil)
next
  case (Cons x args)
  obtain m h1 where m: "NewBulkString x h = (m, h1)" by (metis surj_pair)
  obtain ms1 where ms1: "NewBulkStrings args h1 = (ms1, h')" "ms = m # ms1"
    using Cons.prems m by (auto split: prod.splits)
  note one = NewBulkString_repr [OF m] and IH = Cons.IH [OF ms1(1)]
  have "same_inside (brk h) (brk h1) h1 h'"
    using IH by (auto simp: same_inside_def same_outside_def)
  with repr_heap_both(1) [OF one(1)] have "repr h' (RBulk x) m (brk h) (brk h1)" by blast
  then show ?case
    using one IH ms1 by (auto intro: repr_reprs.reprs_cons same_outside_trans)
qed

lemma NewOutgoingCommand_repr:
  "NewOutgoingCommand args h = (m, h') \<Longrightarrow> repr h' (RArray (map RBulk args)) m (brk h) (brk h')"
  using NewBulkStrings_repr [of args h]
  by (auto simp: NewOutgoingCommand_def NewArray_def split: prod.splits intro: repr_reprs.repr_array)

end
