(* ===== verification/Float64_Roundtrip.thy ===== *)
theory Float64_Roundtrip
  imports Float64
begin

text \<open>
  Reading back a printed float gives the same bit pattern: the shortest decimal lies in the rounding
  interval, every rational of the interval rounds to the float, and the printed text denotes exactly that
  decimal.
\<close>

subsection \<open>Rounding\<close>

lemma round_even_floor: "0 \<le> x \<Longrightarrow> round_even x = nat \<lfloor>x\<rfloor> \<or> round_even x = Suc (nat \<lfloor>x\<rfloor>)"
  by (auto simp: round_even_def Let_def Suc_nat_eq_nat_zadd1)

lemma round_even_nearest:
  assumes "\<bar>z - of_nat m\<bar> < 1 / 2 \<or> (\<bar>z - of_nat m\<bar> = 1 / 2 \<and> even m)"
  shows "round_even z = m"
proof -
  consider "of_nat m \<le> z" "z < of_nat m + 1 / 2 \<or> (z = of_nat m + 1 / 2 \<and> even m)"
    | "z < of_nat m" "of_nat m - 1 / 2 < z \<or> (z = of_nat m - 1 / 2 \<and> even m)"
    using assms by (auto simp: abs_if field_simps split: if_splits)
  then show ?thesis
  proof cases
    case 1
    then have "\<lfloor>z\<rfloor> = int m" by (auto simp: floor_unique)
    with 1 show ?thesis by (auto simp: round_even_def Let_def)
  next
    case 2
    then have f: "\<lfloor>z\<rfloor> = int m - 1" by (auto simp: floor_unique)
    then have d: "z - of_int \<lfloor>z\<rfloor> = z - of_nat m + 1" and e: "even \<lfloor>z\<rfloor> \<longleftrightarrow> odd m" by simp_all
    have "\<not> (z - of_nat m + 1 < 1 / 2 \<or> (z - of_nat m + 1 = 1 / 2 \<and> odd m))" using 2 by auto
    then show ?thesis by (simp only: round_even_def Let_def d e if_False) (simp add: f)
  qed
qed

lemma nat_floor_less_iff: "0 \<le> y \<Longrightarrow> nat \<lfloor>y\<rfloor> < 2 ^ w \<longleftrightarrow> y < 2 ^ w" for y :: rat
  by (simp add: nat_less_iff floor_less_iff)

lemma binade_le_iff: "0 \<le> y \<Longrightarrow> binade y \<le> b \<longleftrightarrow> y < 2 ^ (53 + b)"
  using floorlog_le_iff [of 2 "nat \<lfloor>y\<rfloor>" "53 + b"] nat_floor_less_iff [of y "53 + b"]
  by (auto simp: binade_def)

lemma binade_eq: "0 \<le> y \<Longrightarrow> y < 2 ^ (53 + b) \<Longrightarrow> (b = 0 \<or> 2 ^ (52 + b) \<le> y) \<Longrightarrow> binade y = b"
proof (cases b)
  case (Suc c)
  assume "0 \<le> y" "y < 2 ^ (53 + b)" "b = 0 \<or> 2 ^ (52 + b) \<le> y"
  then have "binade y \<le> b" "\<not> binade y \<le> c" using Suc by (auto simp: binade_le_iff not_less)
  with Suc show ?thesis by simp
qed (use binade_le_iff [of y 0] in auto)

lemma mag_split:
  shows "n = mag_binade n * 2 ^ 52 + mag_mant n" "mag_mant n < 2 ^ 53" "mag_binade n \<noteq> 0 \<Longrightarrow> 2 ^ 52 \<le> mag_mant n"
proof -
  define r where "r = n mod 2 ^ 52"
  have n: "n = n div 2 ^ 52 * 2 ^ 52 + r" and r: "r < 2 ^ 52" unfolding r_def by simp_all
  have "n = mag_binade n * 2 ^ 52 + mag_mant n \<and> mag_mant n < 2 ^ 53 \<and>
      (mag_binade n \<noteq> 0 \<longrightarrow> 2 ^ 52 \<le> mag_mant n)"
  proof (cases "n div 2 ^ 52")
    case 0
    with n r show ?thesis by (simp add: mag_binade_def mag_mant_def)
  next
    case (Suc e)
    then have "n = e * 2 ^ 52 + (2 ^ 52 + r)" using n by simp
    moreover have "mag_binade n = e" using Suc by (simp add: mag_binade_def)
    ultimately show ?thesis using r by (auto simp: mag_mant_def)
  qed
  then show "n = mag_binade n * 2 ^ 52 + mag_mant n" "mag_mant n < 2 ^ 53"
    "mag_binade n \<noteq> 0 \<Longrightarrow> 2 ^ 52 \<le> mag_mant n" by blast+
qed

text \<open>Everything within half a unit of a mantissa rounds to it, also across a binade boundary.\<close>

lemma near_abs:
  fixes z m :: rat
  assumes "z < m + 1 / 2 \<or> (z = m + 1 / 2 \<and> E)" "m - 1 / 2 < z \<or> (m - 1 / 2 = z \<and> E)"
  shows "\<bar>z - m\<bar> < 1 / 2 \<or> (\<bar>z - m\<bar> = 1 / 2 \<and> E)"
proof -
  consider "z < m + 1 / 2" "m - 1 / 2 < z" | "z = m + 1 / 2" E | "z = m - 1 / 2" E using assms by blast
  then show ?thesis
  proof cases
    case 1
    then have "\<bar>z - m\<bar> < 1 / 2" unfolding abs_less_iff by linarith
    then show ?thesis ..
  qed simp_all
qed

lemma round_units_near:
  assumes m: "m < 2 ^ 53" "j \<noteq> 0 \<Longrightarrow> 2 ^ 52 \<le> m" and y: "2 ^ j * (of_nat m - (1::rat) / 2) \<le> y"
    and up: "y < 2 ^ j * (of_nat m + 1 / 2) \<or> (y = 2 ^ j * (of_nat m + 1 / 2) \<and> even m)"
    and lo: "2 ^ j * (of_nat m - 1 / 2) < y \<or> even m" and low: "j \<noteq> 0 \<Longrightarrow> 2 ^ (52 + j) \<le> y" and "0 \<le> y"
  shows "round_units y = j * 2 ^ 52 + m"
proof -
  have P: "(0::rat) < 2 ^ j" by simp
  have "of_nat m + (1::rat) / 2 < 2 ^ 53"
  proof -
    have "m + 1 \<le> 2 ^ 53" using m(1) by simp
    then have "of_nat (m + 1) \<le> (of_nat (2 ^ 53) :: rat)" by (simp only: of_nat_le_iff)
    then show ?thesis by simp
  qed
  then have "2 ^ j * (of_nat m + (1::rat) / 2) < 2 ^ j * 2 ^ 53" using P by (simp only: mult_less_cancel_left_pos)
  moreover have "y \<le> 2 ^ j * (of_nat m + 1 / 2)" using up by auto
  ultimately have "y < 2 ^ j * 2 ^ 53" by (rule order.strict_trans1 [rotated])
  then have "y < 2 ^ (53 + j)" by (simp add: power_add mult.commute)
  then have b: "binade y = j" by (rule binade_eq [OF \<open>0 \<le> y\<close>]) (use low in blast)
  have "\<bar>y / 2 ^ j - of_nat m\<bar> < 1 / 2 \<or> (\<bar>y / 2 ^ j - of_nat m\<bar> = 1 / 2 \<and> even m)"
  proof -
    have u: "y / 2 ^ j < of_nat m + 1 / 2 \<or> (y / 2 ^ j = of_nat m + 1 / 2 \<and> even m)"
      using up P by (auto simp: field_simps)
    have l: "of_nat m - 1 / 2 < y / 2 ^ j \<or> (of_nat m - 1 / 2 = y / 2 ^ j \<and> even m)"
      using lo y P by (auto simp: field_simps)
    show ?thesis by (rule near_abs [OF u l])
  qed
  then show ?thesis by (simp add: round_units_def b round_even_nearest)
qed

lemma round_mag_interval:
  assumes "in_interval n x" "0 < n"
  shows "round_mag x = n"
proof -
  define m where "m = mag_mant n"
  define j where "j = mag_binade n"
  define y where "y = x * units"
  have U: "0 < units" by (simp add: units_def)
  have n: "n = j * 2 ^ 52 + m" and m53: "m < 2 ^ 53" and m52: "j \<noteq> 0 \<Longrightarrow> 2 ^ 52 \<le> m"
    using mag_split [of n] by (auto simp: m_def j_def)
  have m0: "0 < m" using n m52 \<open>0 < n\<close> by (cases "j = 0") auto
  define lo where "lo = (if m = 2 ^ 52 \<and> j \<noteq> 0 then of_nat m - (1::rat) / 4 else of_nat m - 1 / 2)"
  have up: "y < 2 ^ j * (of_nat m + 1 / 2) \<or> (y = 2 ^ j * (of_nat m + 1 / 2) \<and> even m)"
    and lw: "2 ^ j * lo < y \<or> (y = 2 ^ j * lo \<and> even m)"
    using assms(1) U
    by (auto simp: in_interval_def mag_lower_def mag_upper_def lo_def y_def m_def j_def field_simps split: if_splits)
  have lo_pos: "0 \<le> lo" using m0 by (auto simp: lo_def)
  then have "0 \<le> 2 ^ j * lo" by simp
  with lw have y0: "0 \<le> y" by linarith
  show ?thesis
  proof (cases "j = 0 \<or> 2 ^ (52 + j) \<le> y")
    case True
    have "round_units y = j * 2 ^ 52 + m"
    proof (rule round_units_near [OF m53 m52])
      have "of_nat m - (1::rat) / 2 \<le> lo" by (simp add: lo_def)
      then have "2 ^ j * (of_nat m - (1::rat) / 2) \<le> 2 ^ j * lo" by (rule mult_left_mono) simp
      then show "2 ^ j * (of_nat m - (1::rat) / 2) \<le> y" using lw by linarith
      show "2 ^ j * (of_nat m - 1 / 2) < y \<or> even m"
        using lw by (cases "m = 2 ^ 52 \<and> j \<noteq> 0") (auto simp: lo_def)
    qed (use up True y0 in auto)
    then show ?thesis by (simp add: round_mag_def y_def n)
  next
    case False
    then have j: "j \<noteq> 0" and ylt: "y < 2 ^ j * 2 ^ 52" by (auto simp: power_add mult.commute)
    have meq: "m = 2 ^ 52"
    proof (rule ccontr)
      assume ne: "m \<noteq> 2 ^ 52"
      with m52 j have "2 ^ 52 + 1 \<le> m" by simp
      then have "of_nat (2 ^ 52 + 1) \<le> (of_nat m :: rat)" by (simp only: of_nat_le_iff)
      then have "2 ^ 52 \<le> of_nat m - (1::rat) / 2" by simp
      then have "2 ^ j * 2 ^ 52 \<le> 2 ^ j * lo" using ne by (simp add: lo_def)
      with lw ylt show False by linarith
    qed
    obtain i where i: "j = Suc i" using j by (cases j) auto
    have "round_units y = i * 2 ^ 52 + 2 ^ 53"
    proof -
      have lw': "2 ^ i * (2 ^ 53 - 1 / 2) \<le> y" using lw meq j i by (auto simp: lo_def field_simps)
      have yb: "y < 2 ^ i * 2 ^ 53" using ylt i by simp
      have "binade y = i"
      proof (rule binade_eq [OF y0])
        show "y < 2 ^ (53 + i)" using yb by (simp add: power_add mult.commute)
        have "(2::rat) ^ i * 2 ^ 52 \<le> 2 ^ i * (2 ^ 53 - 1 / 2)" by simp
        from this lw' have "2 ^ i * 2 ^ 52 \<le> y" by (rule order.trans)
        then show "i = 0 \<or> 2 ^ (52 + i) \<le> y" by (simp add: power_add mult.commute)
      qed
      moreover have "round_even (y / 2 ^ i) = 2 ^ 53"
      proof (rule round_even_nearest)
        have "2 ^ 53 - 1 / 2 \<le> y / 2 ^ i" "y / 2 ^ i < 2 ^ 53"
          using lw' yb by (auto simp: field_simps)
        then show "\<bar>y / 2 ^ i - of_nat (2 ^ 53)\<bar> < 1 / 2 \<or>
            \<bar>y / 2 ^ i - of_nat (2 ^ 53)\<bar> = 1 / 2 \<and> even (2 ^ 53 :: nat)"
          by (auto simp: abs_if)
      qed
      ultimately show ?thesis by (simp add: round_units_def)
    qed
    then show ?thesis using i meq by (simp add: round_mag_def y_def n)
  qed
qed

subsection \<open>The shortest decimal\<close>

lemma in_interval_value: "0 < n \<Longrightarrow> in_interval n (mag_value n)"
proof -
  have U: "0 < units" by (simp add: units_def)
  have P: "(0::rat) < 2 ^ mag_binade n" by simp
  have "mag_lower n < mag_value n" "mag_value n < mag_upper n"
    using U P by (auto simp: mag_lower_def mag_upper_def mag_value_def divide_simps)
  then show ?thesis by (simp add: in_interval_def)
qed

lemma pow10_pos [simp]: "0 < pow10 k"
  by (simp add: pow10_def)

lemma mag_value_nonneg [simp]: "0 \<le> mag_value n"
  by (simp add: mag_value_def units_def)

lemma place_digits_interval: "place_digits n k = Some t \<Longrightarrow> in_interval n (of_nat t * pow10 k)"
proof -
  assume t: "place_digits n k = Some t"
  have "0 \<le> mag_value n / pow10 k" by (simp add: less_imp_le)
  from round_even_floor [OF this] t show ?thesis
    by (auto simp: place_digits_def Let_def split: if_splits)
qed

lemma exact_place:
  assumes n: "0 < n" and U: "units = 2 ^ e"
  shows "place_digits n (- int e) \<noteq> None"
proof -
  define N :: nat where "N = mag_mant n * 2 ^ mag_binade n * 5 ^ e"
  have "(10::rat) ^ e = 2 ^ e * 5 ^ e"
    by (simp only: power_mult_distrib [symmetric]) simp
  then have x: "mag_value n / pow10 (- int e) = of_nat N"
    by (simp add: mag_value_def pow10_def U N_def)
  then have "of_nat N * pow10 (- int e) = mag_value n"
    using pow10_pos [of "- int e"] by (metis nonzero_eq_divide_eq order_less_irrefl)
  then have "in_interval n (of_nat N * pow10 (- int e))" using in_interval_value [OF n] by simp
  then show ?thesis unfolding place_digits_def x by (simp add: Let_def)
qed

lemma shortest_interval:
  assumes "0 < n" "shortest n = (t, k)"
  shows "in_interval n (of_nat t * pow10 k)"
proof -
  have "- int 1074 = 309 - int 1383" and "1383 \<in> set [0..<1384]" by simp_all
  then have "- int 1074 \<in> set places" unfolding places_def set_map by (rule image_eqI)
  then have "find (\<lambda>k. place_digits n k \<noteq> None) places \<noteq> None"
    using exact_place [OF assms(1) units_def] by (auto simp only: find_None_iff)
  then obtain k' where k': "find (\<lambda>k. place_digits n k \<noteq> None) places = Some k'" by auto
  then have "place_digits n k' \<noteq> None" by (auto simp: find_Some_iff)
  then show ?thesis using assms(2) k' place_digits_interval by (auto simp: shortest_def)
qed

subsection \<open>The text\<close>

lemma read_mant_digits:
  "(\<And>c. c \<in> set ds \<Longrightarrow> is_digit c) \<Longrightarrow>
   read_mant False dot z fr dig und (ds @ cs) =
     read_mant False dot (digits_val z ds) (if dot then fr + length ds else fr) (dig \<or> ds \<noteq> []) und cs"
proof (induction ds arbitrary: z fr dig)
  case (Cons d ds)
  then have "is_digit d" by simp
  then have "big_digit d = digit_val d" "d \<noteq> CHR ''_''" "d \<noteq> CHR ''.''"
    using big_digit_digit [of d] by (auto simp: is_digit_def)
  with Cons show ?case by simp
qed simp

lemma digits_val_shift: "digits_val z ds = z * 10 ^ length ds + digits_val 0 ds"
proof (induction ds arbitrary: z)
  case (Cons d ds)
  have "digits_val z (d # ds) = (10 * z + digit_val d) * 10 ^ length ds + digits_val 0 ds"
    using Cons.IH [of "10 * z + digit_val d"] by simp
  also have "\<dots> = z * 10 ^ length (d # ds) + (digit_val d * 10 ^ length ds + digits_val 0 ds)"
    by (simp add: algebra_simps)
  finally show ?case using Cons.IH [of "digit_val d"] by simp
qed simp

lemma length_nat_string: "n < 10 ^ p \<Longrightarrow> 0 < p \<Longrightarrow> length (nat_string n) \<le> p"
proof (induction n arbitrary: p rule: nat_string.induct)
  case (1 n)
  show ?case
  proof (cases "n < 10")
    case True
    with 1 show ?thesis by (subst nat_string.simps) simp
  next
    case False
    with 1(2) obtain q where q: "p = Suc q" "0 < q"
      by (cases p; cases "p - 1") auto
    with 1(2) have "n div 10 < 10 ^ q" by (simp add: less_mult_imp_div_less mult.commute)
    with 1(1) False q show ?thesis by (subst nat_string.simps) simp
  qed
qed

lemma digits_val_replicate [simp]: "digits_val 0 (replicate n CHR ''0'' @ ds) = digits_val 0 ds"
  by (induction n) (simp_all add: digit_val_def)

lemma pad_zeros_digits:
  "c \<in> set (pad_zeros w (nat_string n)) \<Longrightarrow> is_digit c"
  by (auto simp: pad_zeros_def is_digit_def nat_string_digits [unfolded is_digit_def])

lemma pad_zeros_val:
  assumes "n < 10 ^ p" "0 < p"
  shows "digits_val z (pad_zeros p (nat_string n)) = z * 10 ^ p + n" "length (pad_zeros p (nat_string n)) = p"
proof -
  show len: "length (pad_zeros p (nat_string n)) = p"
    using length_nat_string [OF assms] by (simp add: pad_zeros_def)
  have "digits_val 0 (pad_zeros p (nat_string n)) = n"
    unfolding pad_zeros_def digits_val_replicate by (rule digits_val_nat_string)
  then show "digits_val z (pad_zeros p (nat_string n)) = z * 10 ^ p + n"
    using digits_val_shift [of z "pad_zeros p (nat_string n)"] len by simp
qed

text \<open>What \<open>format_f\<close> prints: digits, then perhaps a point and more digits.\<close>

lemma read_mant_format_f:
  "\<exists>z fr. read_mant False False 0 0 False False (format_f (t, k)) = (z, fr, True, False, []) \<and>
     of_nat z / (10::rat) ^ fr = of_nat t * pow10 k"
proof (cases "0 \<le> k")
  case True
  have "read_mant False False 0 0 False False (nat_string (t * 10 ^ nat k) @ []) =
      (t * 10 ^ nat k, 0, True, False, [])"
    by (subst read_mant_digits) (simp_all add: nat_string_digits digits_val_nat_string)
  with True show ?thesis by (simp add: format_f_def pow10_def)
next
  case False
  define p where "p = nat (- k)"
  have p: "0 < p" "t mod 10 ^ p < 10 ^ p" using False by (simp_all add: p_def)
  have "read_mant False False 0 0 False False
      (nat_string (t div 10 ^ p) @ CHR ''.'' # pad_zeros p (nat_string (t mod 10 ^ p)) @ []) =
      (t div 10 ^ p * 10 ^ p + t mod 10 ^ p, p, True, False, [])"
    by (simp only: read_mant_digits [OF nat_string_digits] read_mant.simps read_mant_digits [OF pad_zeros_digits]
        digits_val_nat_string pad_zeros_val [OF p(2,1)]) simp
  then have "read_mant False False 0 0 False False (format_f (t, k)) = (t, p, True, False, [])"
    unfolding div_mult_mod_eq using False by (simp add: format_f_def p_def Let_def)
  with False show ?thesis by (simp add: pow10_def p_def)
qed

lemma format_f_chars: "c \<in> set (format_f tk) \<Longrightarrow> is_digit c \<or> c = CHR ''.''"
  by (cases tk) (auto simp: format_f_def Let_def nat_string_digits pad_zeros_digits split: if_splits)

lemma nat_string_Cons: "\<exists>c cs. nat_string n = c # cs \<and> is_digit c"
  using nat_string_digits [of _ n] by (cases "nat_string n") auto

lemma format_f_hd: "\<exists>c cs. format_f tk = c # cs \<and> is_digit c"
proof (cases tk)
  case (Pair t k)
  with nat_string_Cons [of "t * 10 ^ nat k"] nat_string_Cons [of "t div 10 ^ nat (- k)"] show ?thesis
    by (auto simp: format_f_def Let_def)
qed

lemma ascii_lower_id: "is_digit c \<or> c = CHR ''.'' \<or> c = CHR ''-'' \<Longrightarrow> ascii_lower c = c"
  by (auto simp: ascii_lower_def is_digit_def Let_def)

lemma char_x_not_digit: "\<not> (is_digit CHR ''x'' \<or> CHR ''x'' = CHR ''.'')"
  by (simp add: is_digit_def)

lemma strip_sign_format:
  "strip_sign ((if neg then ''-'' else []) @ format_f tk) = format_f tk"
  using format_f_hd [of tk] by (auto simp: strip_sign_def)

lemma format_f_not_hex: "2 < length (format_f tk) \<Longrightarrow> ascii_lower (format_f tk ! 1) \<noteq> CHR ''x''"
proof -
  assume "2 < length (format_f tk)"
  then have "format_f tk ! 1 \<in> set (format_f tk)" by simp
  from format_f_chars [OF this] show ?thesis
    using ascii_lower_id [of "format_f tk ! 1"] by (metis char_x_not_digit)
qed

lemma readFloat_format_f:
  "readFloat ((if neg then ''-'' else []) @ format_f (t, k)) = Some (neg, of_nat t * pow10 k)"
proof -
  obtain z fr where z: "read_mant False False 0 0 False False (format_f (t, k)) = (z, fr, True, False, [])"
    and v: "of_nat z / (10::rat) ^ fr = of_nat t * pow10 k"
    using read_mant_format_f [of t k] by blast
  obtain c cs where c: "format_f (t, k) = c # cs" "is_digit c" using format_f_hd by blast
  have neg: "((if neg then ''-'' else []) @ format_f (t, k) \<noteq> [] \<and>
      hd ((if neg then ''-'' else []) @ format_f (t, k)) = CHR ''-'') = neg"
    using c by auto
  have hex: "(2 < length (format_f (t, k)) \<and> hd (format_f (t, k)) = CHR ''0'' \<and>
      ascii_lower (format_f (t, k) ! 1) = CHR ''x'') = False"
    using format_f_not_hex by blast
  show ?thesis
    unfolding readFloat_def Let_def neg strip_sign_format hex by (simp add: z v)
qed

lemma ParseFloat_format_f:
  assumes "round_mag (of_nat t * pow10 k) = n" "n < f_inf_mag"
  shows "ParseFloat ((if neg then ''-'' else []) @ format_f (t, k)) = Inr (mk_float neg n)"
proof -
  obtain c cs where c: "format_f (t, k) = c # cs" "is_digit c" using format_f_hd by blast
  have lc: "ascii_lower c = c" "ascii_lower CHR ''-'' = CHR ''-''" using c by (simp_all add: ascii_lower_id)
  have nc: "c \<noteq> CHR ''i''" "c \<noteq> CHR ''n''" "c \<noteq> CHR ''+''" "c \<noteq> CHR ''-''" using c by (auto simp: is_digit_def)
  have special: "map ascii_lower ((if neg then ''-'' else []) @ c # cs) \<notin>
      {''inf'', ''infinity'', ''+inf'', ''+infinity'', ''-inf'', ''-infinity'', ''nan''}"
    using nc lc by auto
  then show ?thesis
    using assms readFloat_format_f [of neg t k] c by (simp add: ParseFloat_def Let_def not_le)
qed

lemma unat_lt: "unat (w :: float64) < 2 ^ 64"
  using unsigned_less [of w] by simp

lemma unat_split: "mk_float (f_neg w) (f_mag w) = w"
proof -
  have "unat w < 2 * 2 ^ 63" using unat_lt by simp
  then have "(if f_neg w then 2 ^ 63 else 0) + f_mag w = unat w"
    by (auto simp: f_neg_def f_mag_def le_mod_geq)
  then show ?thesis by (simp add: mk_float_def)
qed

lemma round_mag_0: "round_mag 0 = 0"
  by (simp add: round_mag_def round_units_def binade_def round_even_def floorlog_def)

lemma ParseFloat_FormatFloat:
  assumes "\<not> f_isNaN w"
  shows "ParseFloat (FormatFloat w) = Inr w"
proof (cases "f_isInf w")
  case True
  then have "mk_float (f_neg w) f_inf_mag = w" using unat_split [of w] by (simp add: f_isInf_def)
  moreover have "map ascii_lower ''+Inf'' = ''+inf''" "map ascii_lower ''-Inf'' = ''-inf''"
    by code_simp+
  ultimately show ?thesis using True assms by (auto simp: FormatFloat_def ParseFloat_def)
next
  case False
  then have fin: "f_mag w < f_inf_mag" using assms by (auto simp: f_isInf_def f_isNaN_def)
  show ?thesis
  proof (cases "f_mag w = 0")
    case True
    have "format_f (0, 0) = ''0''" by (simp add: format_f_def nat_string.simps digit_char_def char_of_def bit_0)
    with ParseFloat_format_f [of 0 0 0 "f_neg w"] True False assms fin unat_split [of w] show ?thesis
      by (simp add: FormatFloat_def round_mag_0)
  next
    case nz: False
    obtain t k where tk: "shortest (f_mag w) = (t, k)" by (metis surj_pair)
    have "round_mag (of_nat t * pow10 k) = f_mag w"
      using shortest_interval [OF _ tk] nz round_mag_interval by blast
    with ParseFloat_format_f [of t k "f_mag w" "f_neg w"] nz False assms fin tk unat_split [of w] show ?thesis
      by (simp add: FormatFloat_def)
  qed
qed

lemma FormatFloat_line: "FormatFloat w \<noteq> []" "CHR 0x0A \<notin> set (FormatFloat w)"
proof -
  have "CHR 0x0A \<notin> set (format_f tk)" for tk
    using format_f_chars [of "CHR 0x0A" tk] by (auto simp: is_digit_def)
  then show "CHR 0x0A \<notin> set (FormatFloat w)" by (auto simp: FormatFloat_def)
  show "FormatFloat w \<noteq> []" using format_f_hd [of "shortest (f_mag w)"] by (auto simp: FormatFloat_def)
qed

end
