(* ===== verification/Decoder.thy ===== *)
theory Decoder
  imports Wire Float64_Roundtrip
begin

text \<open>
  What the decoder of \<^verbatim>\<open>protocol/message/coder.go\<close> does with the wire form: how a line is cut out
  of the stream, that one pass of \<open>Iterate\<close> reads back what \<open>Encode\<close> wrote for a scalar or bulk
  value, and what the loop around the passes makes of it.
\<close>

subsection \<open>Lines\<close>

abbreviation CR :: char where "CR \<equiv> CHR 0x0D"
abbreviation LF :: char where "LF \<equiv> CHR 0x0A"

lemma line_done_last: "line_done buf \<Longrightarrow> last buf = LF \<and> 2 < length buf"
  using lastn_eqD [of EOL buf] by (auto simp: line_done_def EOL_def) (metis last_ConsL last_ConsR
      last_appendR list.distinct(1))

lemma line_from_body:
  "LF \<notin> set cs \<Longrightarrow> buf @ cs \<noteq> [] \<Longrightarrow> line_from buf (cs @ EOL @ tail) = Some (buf @ cs, tail)"
proof (induction cs arbitrary: buf)
  case Nil
  have "\<not> line_done (buf @ [CR])" using line_done_last [of "buf @ [CR]"] by auto
  moreover have "line_done (buf @ [CR, LF])"
    using Nil by (auto simp: line_done_def lastn_def EOL_def neq_Nil_conv)
  ultimately show ?case by (simp add: EOL_def)
next
  case (Cons c cs)
  then have "\<not> line_done (buf @ [c])" using line_done_last [of "buf @ [c]"] by auto
  with Cons show ?case by simp
qed

lemma line_from_empty:
  "LF \<notin> set cs \<Longrightarrow> line_from [] (EOL @ cs @ EOL @ tail) = Some (EOL @ cs, tail)"
  using line_from_body [of cs EOL tail] line_done_last [of "[CR, LF]"] line_done_last [of "[CR]"]
  by (auto simp: EOL_def)

subsection \<open>Readers without empty reads\<close>

text \<open>A source none of whose chunks is empty delivers a byte on every successful one-byte read, as the
  in-memory readers and a buffered connection do.\<close>

definition solid :: "rid \<Rightarrow> heap \<Rightarrow> bool" where
  "solid r h \<longleftrightarrow> (\<exists>s. objs h r = Src s \<and> [] \<notin> set (chunks s))"

lemma hread_solid: "solid r h \<Longrightarrow> hread r k h = (x, h') \<Longrightarrow> solid r h'"
  by (auto simp: solid_def hread_Src Read_def split: list.splits if_splits)

lemma hread_solid_byte:
  assumes "solid r h" "hleft r h = c # cs"
  shows "\<exists>h'. hread r 1 h = (([c], None), h') \<and> hleft r h' = cs \<and> solid r h' \<and> hfin r h' = hfin r h"
proof -
  obtain p h' where p: "hread r 1 h = ((p, None), h')" using hread_end assms(2) by (metis list.distinct(1))
  note ok = hread_ok [OF p]
  have "p \<noteq> []" using assms p
    by (auto simp: solid_def hread_Src Read_def heap_view_Src rest_def split: list.splits if_splits)
  with ok assms(2) have "p = [c]" "hleft r h' = cs" by (cases p; auto)+
  with p ok hread_solid [OF assms(1) p] show ?thesis by auto
qed

lemma simpleUnmarshal_loop_solid:
  "solid r h \<Longrightarrow> simpleUnmarshal_loop r buf h = (x, h') \<Longrightarrow> solid r h'"
proof (induction r buf h rule: simpleUnmarshal_loop.induct)
  case (1 r buf h)
  obtain b e h1 where b: "hread r 1 h = ((b, e), h1)" by (metis surj_pair)
  have s1: "solid r h1" using hread_solid [OF "1.prems"(1) b] .
  show ?case
  proof (cases e)
    case (Some err)
    with b s1 "1.prems"(2) show ?thesis by (auto simp: simpleUnmarshal_loop.simps [of r buf h])
  next
    case None
    show ?thesis
    proof (cases "line_done (buf @ b)")
      case True
      with b None s1 "1.prems"(2) show ?thesis
        by (auto simp: simpleUnmarshal_loop.simps [of r buf h] Let_def)
    next
      case False
      with b None "1.prems"(2) have "simpleUnmarshal_loop r (buf @ b) h1 = (x, h')"
        by (simp add: simpleUnmarshal_loop.simps [of r buf h] Let_def)
      then show ?thesis using "1.IH" b None False s1 by fastforce
    qed
  qed
qed

lemma simpleUnmarshal_solid:
  assumes "solid r h" "line_from [] (hleft r h) = Some (line, tail)"
  shows "\<exists>h'. simpleUnmarshal r h = ((line, int (length line + 2), None), h') \<and> hleft r h' = tail \<and>
    hfin r h' = hfin r h \<and> solid r h'"
  using simpleUnmarshal_line [OF assms(2)] simpleUnmarshal_loop_solid [OF assms(1)]
  by (metis simpleUnmarshal_def)

subsection \<open>One pass over the wire form\<close>

lemma pass_simple:
  assumes "solid r h" "hleft r h = frame k body @ tail" "Category k = CategorySimple"
    and "body \<noteq> []" "LF \<notin> set body"
  shows "\<exists>h'. iterate_pass r h = (decode_simple k body (int (length body + 2)), h') \<and>
    hleft r h' = tail \<and> hfin r h' = hfin r h \<and> solid r h'"
proof -
  have "hleft r h = k # body @ EOL @ tail" using assms(2) by (simp add: frame_def)
  from hread_solid_byte [OF assms(1) this] obtain h1 where
    h1: "hread r 1 h = (([k], None), h1)" "hleft r h1 = body @ EOL @ tail" "solid r h1" "hfin r h1 = hfin r h"
    by blast
  have "line_from [] (hleft r h1) = Some (body, tail)"
    using line_from_body [of body "[]" tail] assms h1 by simp
  from simpleUnmarshal_solid [OF h1(3) this] h1 assms(3) show ?thesis
    by (auto simp: iterate_pass_def)
qed

text \<open>The scalar values whose wire form is one line the decoder can cut out.\<close>

fun scalar_msg :: "resp \<Rightarrow> message option" where
  "scalar_msg (RSimple s) = (if s \<noteq> [] \<and> LF \<notin> set s then Some (SimpleString s) else None)"
| "scalar_msg (RInt i) = (if int64 i then Some (Int_msg i) else None)"
| "scalar_msg (RBool b) = Some (Bool b)"
| "scalar_msg (RDouble f) = (if f_isNaN f then None else Some (Double f))"
| "scalar_msg (RBig i) = Some (BigNumber (Some i))"
| "scalar_msg _ = None"

lemma FormatInt_no_LF [simp]: "LF \<notin> set (FormatInt i)"
  using FormatInt_chars [of LF i] by (auto simp: is_digit_def)

lemma FormatBool_line [simp]: "FormatBool b \<noteq> []" "LF \<notin> set (FormatBool b)"
  by (simp_all add: FormatBool_def)

lemma decode_simple_simps:
  "decode_simple kSimpleString str n = Assembled (set_TotalMessageSize (1 + n) (SimpleString str))"
  "decode_simple kInt str n = (case ParseInt str of
     Inl err \<Rightarrow> Yield zero_msg (Some err) | Inr i \<Rightarrow> Assembled (set_TotalMessageSize (1 + n) (Int_msg i)))"
  "decode_simple kNull str n = Assembled (set_TotalMessageSize (1 + n) Null)"
  "decode_simple kBool str n = (case ParseBool str of
     Inl err \<Rightarrow> Yield zero_msg (Some err) | Inr b \<Rightarrow> Assembled (set_TotalMessageSize (1 + n) (Bool b)))"
  "decode_simple kDouble str n = (case ParseFloat str of
     Inl err \<Rightarrow> Yield zero_msg (Some err) | Inr f \<Rightarrow> Assembled (set_TotalMessageSize (1 + n) (Double f)))"
  "decode_simple kBigNumber str n = (case BigInt_SetString str of
     None \<Rightarrow> Yield zero_msg None | Some i \<Rightarrow> Assembled (set_TotalMessageSize (1 + n) (BigNumber (Some i))))"
  by (simp_all add: decode_simple_def kind_defs)

lemma scalar_pass:
  assumes "scalar_msg v = Some m" "solid r h" "hleft r h = wire v @ tail"
  shows "\<exists>h'. iterate_pass r h = (Assembled (set_TotalMessageSize (int (length (wire v))) m), h') \<and>
    hleft r h' = tail \<and> hfin r h' = hfin r h \<and> solid r h'"
  using assms
proof (cases v)
  case (RSimple s)
  with assms show ?thesis using pass_simple [OF assms(2), of kSimpleString s tail]
    by (auto simp: decode_simple_simps frame_def split: if_splits)
next
  case (RInt i)
  with assms show ?thesis using pass_simple [OF assms(2), of kInt "FormatInt i" tail]
    by (auto simp: decode_simple_simps frame_def split: if_splits)
next
  case (RBool b)
  with assms show ?thesis using pass_simple [OF assms(2), of kBool "FormatBool b" tail]
    by (auto simp: decode_simple_simps frame_def split: if_splits)
next
  case (RDouble f)
  with assms show ?thesis using pass_simple [OF assms(2), of kDouble "FormatFloat f" tail]
    by (auto simp: decode_simple_simps frame_def ParseFloat_FormatFloat FormatFloat_line split: if_splits)
next
  case (RBig i)
  with assms show ?thesis using pass_simple [OF assms(2), of kBigNumber "FormatInt i" tail]
      BigInt_SetString_String [of i]
    by (auto simp: decode_simple_simps frame_def BigInt_String_def split: if_splits)
qed auto

subsection \<open>Bulk values\<close>

text \<open>Reading through an \<open>io.LimitReader\<close> uses up the reader below it byte for byte.\<close>

lemma hread_Lim_below:
  assumes "objs h a = Lim r n" "r < a" "hread a k h = ((p, e), h')"
  shows "hleft r h = p @ hleft r h' \<and> hfin r h' = hfin r h \<and> (\<exists>n'. objs h' a = Lim r n')"
proof (cases "0 < n")
  case True
  obtain q e1 h1 where q: "hread r (min k (nat n)) h = ((q, e1), h1)" by (metis surj_pair)
  with assms True have h': "q = p" "e1 = e" "h' = h1\<lparr>objs := (objs h1)(a := Lim r (n - int (length p)))\<rparr>"
    by (auto simp: hread_Lim)
  have "hleft r h = q @ hleft r h1 \<and> hfin r h1 = hfin r h"
    using hread_ok [of r _ h q h1] hread_fail [of r _ h q _ h1] q by (cases e1) force+
  with h' assms(2) show ?thesis by (simp add: heap_view_update)
next
  case False
  with assms show ?thesis by (auto simp: hread_Lim_end)
qed

lemma ReadFull_loop_below:
  "objs h a = Lim r n \<Longrightarrow> r < a \<Longrightarrow> ReadFull_loop a k acc h = ((b, e), h') \<Longrightarrow>
   acc @ hleft r h = b @ hleft r h' \<and> hfin r h' = hfin r h"
proof (induction a k acc h arbitrary: n rule: ReadFull_loop.induct)
  case (1 a k acc h)
  show ?case
  proof (cases "k \<le> length acc")
    case True
    with 1 show ?thesis by (simp add: ReadFull_loop.simps [of a k acc])
  next
    case False
    obtain p e1 h1 where p: "hread a (k - length acc) h = ((p, e1), h1)" by (metis surj_pair)
    note below = hread_Lim_below [OF "1.prems"(1,2) p]
    show ?thesis
    proof (cases e1)
      case None
      with p "1.prems"(3) False have "ReadFull_loop a k (acc @ p) h1 = ((b, e), h')"
        by (simp add: ReadFull_loop.simps [of a k acc])
      then show ?thesis
        using "1.IH" [OF False p [symmetric] refl None] "1.prems"(2) below by fastforce
    next
      case (Some err)
      with p "1.prems"(3) False below show ?thesis by (auto simp: ReadFull_loop.simps [of a k acc])
    qed
  qed
qed

lemma decode_body_bulk:
  assumes "k \<in> {kVerbatimString, kBulkString, kBulkError}"
  shows "\<exists>a m h'. decode_body r k t n enc h = (Assembled m, h') \<and> LimitReader r n h = (a, h') \<and>
    msgReader m = Some a \<and> msgRunLength m = n \<and> msgTotalMessageSize m = t \<and> msgEncoding m = enc"
  using assms by (cases "LimitReader r n h") (auto simp: decode_body_def)

text \<open>The payload of an assembled bulk message, and where its reader stands once it has been read.\<close>

lemma ReadAll_payload:
  assumes "LimitReader r (int (length b)) h = (a, h1)" "hleft r h = b @ tail"
    and m: "msgReader m = Some a" "msgRunLength m = int (length b)"
  shows "\<exists>h'. ReadAll m h1 = Ret ((b, None), h') \<and> hleft r h' = tail \<and> hfin r h' = hfin r h"
proof -
  have left: "hleft a h1 = b" using LimitReader_left [OF assms(1)] assms(2) by simp
  note v = LimitReader_view [OF assms(1)]
  show ?thesis
  proof (cases "b = []")
    case True
    with m v assms(2) show ?thesis by (simp add: ReadAll_def)
  next
    case False
    obtain h' where h': "ReadFull a (length b) h1 = ((b, None), h')"
      using ReadFull_ok [of "length b" a h1] left by auto
    from ReadFull_loop_below [OF v(4,5) h' [unfolded ReadFull_def]] v assms(2)
    have "hleft r h' = tail" "hfin r h' = hfin r h" by simp_all
    with h' m False show ?thesis by (simp add: ReadAll_def)
  qed
qed

lemma pass_aggregate:
  assumes "solid r h" "hleft r h = frame k (FormatInt n) @ tail" "Category k = CategoryAggregate"
    and "k \<noteq> kVerbatimString" "int64 n"
  shows "\<exists>h1. iterate_pass r h =
      decode_body r k (wrap64 (int (length (FormatInt n)) + 3 + n)) n (replicate 3 CHR 0x00) h1 \<and>
    hleft r h1 = tail \<and> hfin r h1 = hfin r h \<and> solid r h1"
proof -
  have "hleft r h = k # FormatInt n @ EOL @ tail" using assms(2) by (simp add: frame_def)
  from hread_solid_byte [OF assms(1) this] obtain h0 where
    h0: "hread r 1 h = (([k], None), h0)" "hleft r h0 = FormatInt n @ EOL @ tail" "solid r h0" "hfin r h0 = hfin r h"
    by blast
  have "line_from [] (hleft r h0) = Some (FormatInt n, tail)"
    using line_from_body [of "FormatInt n" "[]" tail] h0 by simp
  from simpleUnmarshal_solid [OF h0(3) this] h0 assms(3,4,5) show ?thesis
    by (auto simp: iterate_pass_def decode_aggregate_def Let_def algebra_simps)
qed

lemma bulk_pass:
  assumes "solid r h" "hleft r h = frame k (FormatInt (int (length b))) @ b @ tail"
    and "k \<in> {kBulkString, kBulkError}" "int64 (int (length b))"
  shows "\<exists>m h1 h2. iterate_pass r h = (Assembled m, h1) \<and> msgRunLength m = int (length b) \<and>
    msgTotalMessageSize m = wrap64 (int (length (frame k (FormatInt (int (length b))) @ b))) \<and>
    ReadAll m h1 = Ret ((b, None), h2) \<and> hleft r h2 = tail \<and> hfin r h2 = hfin r h"
proof -
  have k: "Category k = CategoryAggregate" "k \<noteq> kVerbatimString" "k \<in> {kVerbatimString, kBulkString, kBulkError}"
    using assms(3) by (auto simp: kind_defs category_defs)
  from pass_aggregate [OF assms(1,2) k(1,2) assms(4)] obtain h0 where
    h0: "iterate_pass r h = decode_body r k (wrap64 (int (length (FormatInt (int (length b)))) + 3 + int (length b)))
      (int (length b)) (replicate 3 CHR 0x00) h0" "hleft r h0 = b @ tail" "hfin r h0 = hfin r h"
    by blast
  from decode_body_bulk [OF k(3)] h0(1) obtain a m h1 where
    m: "iterate_pass r h = (Assembled m, h1)" "LimitReader r (int (length b)) h0 = (a, h1)" "msgReader m = Some a"
      "msgRunLength m = int (length b)"
      "msgTotalMessageSize m = wrap64 (int (length (FormatInt (int (length b)))) + 3 + int (length b))"
    by metis
  from ReadAll_payload [OF m(2) h0(2) m(3,4)] m h0(3) show ?thesis by (simp add: frame_def add.assoc add.left_commute)
qed

lemma iterate_pass_fail: "hread r 1 h = ((b, Some e), h1) \<Longrightarrow> iterate_pass r h = (Yield zero_msg (Some e), h1)"
  by (simp add: iterate_pass_def)

lemma iterate_pass_byte:
  "hread r 1 h = ((b, None), h1) \<Longrightarrow> k = (case b of [] \<Rightarrow> CHR 0x00 | c # _ \<Rightarrow> c) \<Longrightarrow>
   iterate_pass r h =
     (if Category k = CategorySimple then
        (case simpleUnmarshal r h1 of
           ((str, sz, Some err), h2) \<Rightarrow> (Yield zero_msg (Some err), h2)
         | ((str, sz, None), h2) \<Rightarrow> (decode_simple k str sz, h2))
      else if Category k = CategoryAggregate then decode_aggregate r k h1
      else (Assembled zero_msg, h1))"
  by hypsubst (simp add: iterate_pass_def)

lemma skip_pass:
  assumes "solid r h" "hleft r h = c # cs" "Category c \<noteq> CategorySimple" "Category c \<noteq> CategoryAggregate"
  shows "\<exists>h'. iterate_pass r h = (Assembled zero_msg, h') \<and> hleft r h' = cs \<and> hfin r h' = hfin r h \<and> solid r h'"
proof -
  from hread_solid_byte [OF assms(1,2)] obtain h' where
    h': "hread r 1 h = (([c], None), h')" "hleft r h' = cs" "solid r h'" "hfin r h' = hfin r h" by blast
  from iterate_pass_byte [OF h'(1), of c] assms(3,4) have "iterate_pass r h = (Assembled zero_msg, h')" by simp
  with h' show ?thesis by blast
qed

subsection \<open>The loop\<close>

text \<open>A pass that assembles a message is followed by the next one; a yielding pass ends the loop.\<close>

lemma Iterate_Assembled: "iterate_pass r h = (Assembled m, h') \<Longrightarrow> Iterate r h = Iterate r h'"
  by (simp add: Iterate.simps [of r h])

lemma Iterate_Yield: "iterate_pass r h = (Yield m err, h') \<Longrightarrow> Iterate r h = ([(m, err)], h')"
  by (simp add: Iterate.simps [of r h])

lemma decode_body_assembles: "\<exists>m h'. decode_body r k t n enc h = (Assembled m, h')"
  unfolding decode_body_def Let_def case_prod_beta by blast

lemma decode_simple_yield: "decode_simple k str n = Yield m err \<Longrightarrow> m = zero_msg"
  by (auto simp: decode_simple_def Let_def split: sum.splits option.splits if_splits)

lemma decode_aggregate_yield:
  assumes "decode_aggregate r k h = (Yield m err, h')"
  shows "m = zero_msg"
proof -
  obtain x h1 y h2 where x: "simpleUnmarshal r h = (x, h1)" "simpleUnmarshal r h1 = (y, h2)" by fastforce
  obtain str sz e enc sz' e' where xy: "x = (str, sz, e)" "y = (enc, sz', e')" by (cases x, cases y)
  have no: "decode_body r k t n en h0 \<noteq> (Yield m err, h')" for t n en h0
    using decode_body_assembles [of r k t n en h0] by auto
  show ?thesis
    using assms x xy no unfolding decode_aggregate_def Let_def
    by (cases e; cases "ParseInt str"; cases "k = kVerbatimString"; cases e'; cases "length enc = 3") simp_all
qed

lemma pass_yield_zero:
  assumes "iterate_pass r h = (Yield m err, h')"
  shows "m = zero_msg"
proof -
  obtain b e h1 where b: "hread r 1 h = ((b, e), h1)" by (metis surj_pair)
  obtain x h2 where x: "simpleUnmarshal r h1 = (x, h2)" by fastforce
  moreover obtain str sz e2 where "x = (str, sz, e2)" by (cases x)
  ultimately have s: "simpleUnmarshal r h1 = ((str, sz, e2), h2)" by simp
  show ?thesis
  proof (cases e)
    case None
    obtain k where k: "k = (case b of [] \<Rightarrow> CHR 0x00 | c # _ \<Rightarrow> c)" by blast
    note eq = iterate_pass_byte [OF b [unfolded None] k]
    show ?thesis using assms s decode_simple_yield [of k str sz m err] decode_aggregate_yield [of r k h1 m err h']
      unfolding eq by (auto split: if_splits option.splits)
  next
    case (Some x)
    show ?thesis using assms unfolding iterate_pass_fail [OF b [unfolded Some]] by simp
  qed
qed

lemma Iterate_single: "\<exists>err h'. Iterate r h = ([(zero_msg, err)], h') \<and> hfin r h' = hfin r h"
proof (induction r h rule: Iterate.induct)
  case (1 r h)
  obtain x h1 where x: "iterate_pass r h = (x, h1)" by (metis surj_pair)
  show ?case
  proof (cases x)
    case (Yield m err)
    with x show ?thesis
      using pass_yield_zero [of r h m err h1] iterate_pass_fuel(1) [OF x] Iterate_Yield by blast
  next
    case (Assembled m)
    with x show ?thesis
      using "1.IH" [OF x [symmetric] Assembled] iterate_pass_fuel(1) [OF x] Iterate_Assembled by metis
  qed
qed

lemma Iterate_end: "hleft r h = [] \<Longrightarrow> solid r h \<Longrightarrow> Iterate r h = ([(zero_msg, Some (hfin r h))], h)"
proof -
  assume "hleft r h = []" "solid r h"
  then obtain s where s: "objs h r = Src s" "chunks s = []"
    by (auto simp: solid_def heap_view_Src rest_def) (metis list.set_intros(1) neq_Nil_conv)
  then have "hread r 1 h = (([], Some (hfin r h)), h)"
    by (simp add: hread_Src Read_def heap_view_Src fun_upd_same_heap)
  then show ?thesis by (simp add: Iterate_Yield iterate_pass_def)
qed

end
