(* ===== verification/Codec.thy ===== *)
theory Codec
  imports Decoder
begin

text \<open>
  The properties of the message coder: what \<open>Encode\<close> writes and reports, which lines the decoder
  cuts out, that a pass of the decoder reads back what the encoder wrote, and what \<open>Decode\<close> returns.
\<close>

abbreviation buffer :: writer where
  "buffer \<equiv> \<lparr>out = [], room = None, werr = ErrShortWrite\<rparr>"

text \<open>A reader at address 0 that delivers the given chunks.\<close>

definition one_reader :: "bytes list \<Rightarrow> heap" where
  "one_reader cs = \<lparr>objs = (\<lambda>_. Src (mem_reader []))(0 := Src \<lparr>chunks = cs, final = EOF\<rparr>), brk = 1\<rparr>"

lemma one_reader_solid: "[] \<notin> set cs \<Longrightarrow> solid 0 (one_reader cs)"
  and one_reader_left [simp]: "hleft 0 (one_reader cs) = concat cs"
  and one_reader_fin [simp]: "hfin 0 (one_reader cs) = EOF"
  by (auto simp: one_reader_def solid_def heap_view_Src rest_def)

subsection \<open>Encoding\<close>

lemma repr_unbounded:
  assumes "repr h v m a b" "room w = None"
  shows "\<exists>h'. Encode e m (h, w) = Ret ((length (wire v), None), (h', w\<lparr>out := out w @ wire v\<rparr>))"
  using repr_emits [OF assms(1), of e] Write_unbounded [OF assms(2)] unfolding enc_emits_def
  by (metis fst_conv snd_conv)

text \<open>
  C1. Encoding refines one write of the wire form: for a message that stands for a RESP value, however
  deeply nested, \<open>Encode\<close> acts on every writer exactly as a single \<open>Write\<close> of the value's wire
  form, with the same count, the same error and the same bytes taken, for every chunk size and however the
  payload readers split their content; on success only the message's own readers have moved.
\<close>

theorem encode_refines_write:
  assumes "repr h v m a b"
  shows "\<exists>h'. Encode e m (h, w) = Ret (fst (Write (wire v) w), (h', snd (Write (wire v) w))) \<and>
    (snd (fst (Write (wire v) w)) = None \<longrightarrow> same_outside a b h h')"
  using repr_emits [OF assms, of e] unfolding enc_emits_def by blast

theorem encode_refines_write_witness:
  "case NewOutgoingCommand [''GET'', ''k''] empty_heap of (m, h) \<Rightarrow>
     \<exists>h'. Encode \<lparr>ChunkSize = 2, BufferSize = 0\<rparr> m (h, buffer\<lparr>room := Some 9\<rparr>) =
       Ret ((9, Some ErrShortWrite), (h', \<lparr>out = ''*2'' @ EOL @ ''$3'' @ EOL @ ''G'', room = Some 0, werr = ErrShortWrite\<rparr>))"
proof -
  obtain m h where m: "NewOutgoingCommand [''GET'', ''k''] empty_heap = (m, h)" by fastforce
  have r: "repr h (RArray [RBulk ''GET'', RBulk ''k'']) m 0 (brk h)"
    using NewOutgoingCommand_repr [OF m] by simp
  have len: "FormatInt 1 = ''1''" "FormatInt 2 = ''2''" "FormatInt 3 = ''3''" by code_simp+
  show ?thesis
    using encode_refines_write [OF r, of "\<lparr>ChunkSize = 2, BufferSize = 0\<rparr>" "buffer\<lparr>room := Some 9\<rparr>"] m
    by (auto simp: Write_def frame_def EOL_def kind_defs len)
qed

text \<open>
  C15. An outgoing command goes over the wire as the protocol prescribes: an array header with the
  number of arguments and one bulk string per argument, and the reported count is the number of bytes.
\<close>

theorem outgoing_command_wire:
  assumes "NewOutgoingCommand args h = (m, h')" and "room w = None"
  shows "\<exists>h''. Encode e m (h', w) =
    (let bs = ''*'' @ FormatInt (int (length args)) @ EOL @
       concat (map (\<lambda>a. ''$'' @ FormatInt (int (length a)) @ EOL @ a @ EOL) args)
     in Ret ((length bs, None), (h'', w\<lparr>out := out w @ bs\<rparr>)))"
proof -
  have wire: "wire (RArray (map RBulk args)) = ''*'' @ FormatInt (int (length args)) @ EOL @
       concat (map (\<lambda>a. ''$'' @ FormatInt (int (length a)) @ EOL @ a @ EOL) args)"
    by (simp add: frame_def kind_defs o_def)
  from repr_unbounded [OF NewOutgoingCommand_repr [OF assms(1)] assms(2), of e] show ?thesis
    unfolding Let_def wire .
qed

theorem outgoing_command_wire_witness:
  "case NewOutgoingCommand [''GET'', ''k''] empty_heap of (m, h) \<Rightarrow>
     \<exists>h'. Encode \<lparr>ChunkSize = 0, BufferSize = 0\<rparr> m (h, buffer) =
       Ret ((20, None), (h', buffer\<lparr>out := ''*2'' @ EOL @ ''$3'' @ EOL @ ''GET'' @ EOL @ ''$1'' @ EOL @ ''k'' @ EOL\<rparr>))"
proof -
  obtain m h where m: "NewOutgoingCommand [''GET'', ''k''] empty_heap = (m, h)" by fastforce
  have len: "FormatInt 1 = ''1''" "FormatInt 2 = ''2''" "FormatInt 3 = ''3''" by code_simp+
  show ?thesis
    using outgoing_command_wire [OF m, of buffer "\<lparr>ChunkSize = 0, BufferSize = 0\<rparr>"] m
    by (auto simp: len EOL_def)
qed

text \<open>
  A property of encoding steps that holds of the basic steps and is kept by sequencing holds of \<open>Encode\<close> on every
  message. \<open>after_iterate\<close> is a step that runs a lazy iterator first and then writes according to what it saw.
\<close>

locale enc_closed =
  fixes P :: "enc \<Rightarrow> bool"
  assumes skip: "P enc_skip" and fail: "P (enc_fail err)" and panic: "P (enc_panic s)" and blocked: "P (\<lambda>st. Blocked)"
    and put: "P (put p)" and seq: "P a \<Longrightarrow> P b \<Longrightarrow> P (enc_then a b)" and bulk: "P (writeBulk e m)"
    and after_iterate: "(\<And>xs. P (f xs)) \<Longrightarrow> P (\<lambda>(h, w). case Iterate r h of (xs, h') \<Rightarrow> f xs (h', w))"
begin

lemma if_closed: "(c \<Longrightarrow> P a) \<Longrightarrow> (\<not> c \<Longrightarrow> P b) \<Longrightarrow> P (if c then a else b)"
  by simp

lemmas closed = skip fail panic blocked put seq bulk if_closed

lemma iterate: "P (encode_iterate r)"
proof -
  define f where "f xs = (case xs of [] \<Rightarrow> enc_skip
      | x # _ \<Rightarrow> (case snd x of Some err \<Rightarrow> enc_fail err | None \<Rightarrow> put [msgKind (fst x)]))"
    for xs :: "(message \<times> error option) list"
  have "P (f xs)" for xs
    by (cases xs) (auto simp: f_def closed split: option.split)
  moreover have "encode_iterate r = (\<lambda>(h, w). case Iterate r h of (xs, h') \<Rightarrow> f xs (h', w))"
    by (auto simp: encode_iterate_def f_def fun_eq_iff split: prod.split list.split option.split)
  ultimately show ?thesis using after_iterate [of f r] by simp
qed

lemma chunked: "P (encode_chunk r)"
proof -
  have "P (foldr (\<lambda>((k, v), err) after. enc_then (put [msgKind k]) (enc_then (put [msgKind v]) after)) xs enc_skip)" for xs
    by (induction xs) (auto intro!: closed)
  then show ?thesis unfolding encode_chunk_def by (rule after_iterate)
qed

lemma encode:
  "P (Encode e m)" "P (encode_list e ms)" "P (encode_pairs e kvs)"
proof (induction e m and e ms and e kvs rule: Encode_encode_list_encode_pairs.induct)
  case (1 e k ss er i b d bn tms rl rd enc sq as)
  define m where "m = Message k ss er i b d bn tms rl rd enc sq as"
  have simple: "P (case simpleToByte m of Ret (Inl err) \<Rightarrow> enc_fail err | Ret (Inr body) \<Rightarrow> put body
      | Panic s \<Rightarrow> enc_panic s | Blocked \<Rightarrow> (\<lambda>st. Blocked))"
    by (auto simp: closed split: go.split sum.split)
  show ?case
    unfolding Encode.simps Let_def unfolding m_def [symmetric]
    by (intro closed simple) (cases sq; cases as; use 1 in \<open>auto simp: m_def closed iterate chunked\<close>)+
qed (simp_all add: closed)

end

text \<open>A step reports exactly the bytes it wrote.\<close>

definition enc_counts :: "enc \<Rightarrow> bool" where
  "enc_counts a \<longleftrightarrow> (\<forall>h w n err h' w'. a (h, w) = Ret ((n, err), (h', w')) \<longrightarrow>
     (\<exists>p. out w' = out w @ p \<and> length p = n))"

lemma enc_countsD: "enc_counts a \<Longrightarrow> a (h, w) = Ret ((n, err), (h', w')) \<Longrightarrow> \<exists>p. out w' = out w @ p \<and> length p = n"
  unfolding enc_counts_def by blast

lemma counts_skip: "enc_counts enc_skip" and counts_fail: "enc_counts (enc_fail err)"
  and counts_panic: "enc_counts (enc_panic s)" and counts_blocked: "enc_counts (\<lambda>st. Blocked)"
  by (simp_all add: enc_counts_def enc_skip_def enc_fail_def enc_panic_def)

lemma counts_put: "enc_counts (put p)"
  by (auto simp: enc_counts_def put_def Let_def split: prod.splits dest!: wr.write_written)

lemma counts_then:
  assumes "enc_counts a" "enc_counts b"
  shows "enc_counts (enc_then a b)"
  unfolding enc_counts_def
proof (intro allI impI)
  fix h w n err h' w' assume r: "enc_then a b (h, w) = Ret ((n, err), (h', w'))"
  then obtain n1 e1 h1 w1 where a: "a (h, w) = Ret ((n1, e1), (h1, w1))"
    by (auto simp: enc_then_def)
  then obtain p1 where p1: "out w1 = out w @ p1" "length p1 = n1" using enc_countsD [OF assms(1)] by blast
  show "\<exists>p. out w' = out w @ p \<and> length p = n"
  proof (cases e1)
    case None
    then obtain n2 where b: "b (h1, w1) = Ret ((n2, err), (h', w'))" "n = n1 + n2"
      using r a by (auto simp: enc_then_def)
    then obtain p2 where "out w' = out w1 @ p2" "length p2 = n2" using enc_countsD [OF assms(2)] by blast
    with p1 b show ?thesis by (intro exI [of _ "p1 @ p2"]) simp
  qed (use r a p1 in \<open>auto simp: enc_then_def\<close>)
qed

lemma writeBulk_loop_counts:
  "writeBulk_loop e r left tot (h, w) = Ret ((n, err), (h', w')) \<Longrightarrow>
   \<exists>p. out w' = out w @ p \<and> tot + length p = n"
proof (induction e r left tot "(h, w)" arbitrary: h w rule: writeBulk_loop.induct)
  case (1 e r left tot h w)
  show ?case
  proof (cases "left \<le> 0")
    case True
    with 1(2) show ?thesis
      by (auto simp: writeBulk_loop.simps [of e r left] put_def Let_def split: prod.splits dest!: wr.write_written)
  next
    case nl: False
    then obtain b where b: "emptyBuffer (ChunkSize e) left = Ret b" using emptyBuffer_positive by force
    obtain q er h1 where q: "hread r (length b) h = ((q, er), h1)" by (metis surj_pair)
    obtain k er2 w1 where k: "Write q w = ((k, er2), w1)" by (metis surj_pair)
    have w1: "out w1 = out w @ take k q" "k \<le> length q" using wr.write_written [OF k] by auto
    show ?thesis
    proof (cases "er = None \<and> er2 = None")
      case True
      then have "writeBulk_loop e r (left - int k) (tot + k) (h1, w1) = Ret ((n, err), (h', w'))"
        using 1(2) q k by (simp add: writeBulk_loop_step [OF nl b])
      then obtain p where "out w' = out w1 @ p" "tot + k + length p = n"
        using 1(1) [OF nl b q [symmetric] refl] k True by fastforce
      with w1 show ?thesis by (intro exI [of _ "take k q @ p"]) simp
    next
      case False
      with 1(2) q k w1 show ?thesis
        by (cases er) (auto simp: writeBulk_loop_step [OF nl b])
    qed
  qed
qed

lemma counts_writeBulk: "enc_counts (writeBulk e m)"
  using writeBulk_loop_counts [of e _ "msgRunLength m" 0]
  by (auto simp: writeBulk_def counts_put counts_panic split: option.split) (simp add: enc_counts_def)

lemma counts_after:
  assumes "\<And>xs. enc_counts (f xs)"
  shows "enc_counts (\<lambda>(h, w). case g h of (xs, h') \<Rightarrow> f xs (h', w))"
  unfolding enc_counts_def using enc_countsD [OF assms] by (auto split: prod.splits)

interpretation cnt: enc_closed enc_counts
  by unfold_locales (simp_all add: counts_skip counts_fail counts_panic counts_blocked counts_put counts_then
      counts_writeBulk counts_after)

text \<open>
  C18. Whatever the message and however the encoding ends, the count \<open>Encode\<close> returns is the number of bytes
  it added to the writer, also when it stops half-way with an error, and it only ever appends.
\<close>

theorem encode_count:
  assumes "Encode e m (h, w) = Ret ((n, err), (h', w'))"
  shows "\<exists>p. out w' = out w @ p \<and> length p = n"
  using enc_countsD [OF cnt.encode(1) assms] .

theorem encode_count_witness:
  "\<exists>h' w'. Encode \<lparr>ChunkSize = 0, BufferSize = 0\<rparr> (Int_msg 42) (empty_heap, buffer\<lparr>room := Some 2\<rparr>) =
     Ret ((2, Some ErrShortWrite), (h', w')) \<and> (\<exists>p. out w' = p \<and> length p = 2)"
proof -
  have i: "FormatInt 42 = ''42''" by code_simp
  obtain h' w' where r: "Encode \<lparr>ChunkSize = 0, BufferSize = 0\<rparr> (Int_msg 42) (empty_heap, buffer\<lparr>room := Some 2\<rparr>) =
     Ret ((2, Some ErrShortWrite), (h', w'))"
    by (simp add: Int_msg_def Let_def enc_then_def put_def Write_def simpleToByte_def kind_defs category_defs i EOL_def)
  from encode_count [OF r] r show ?thesis by auto
qed

lemma put_unbounded: "room w = None \<Longrightarrow> put p (h, w) = Ret ((length p, None), (h, w\<lparr>out := out w @ p\<rparr>))"
  by (simp add: put_def Write_unbounded)

text \<open>
  C16. A bulk payload that ends before its announced length is never passed off as complete: everything that
  was there has been written after the header, and \<open>Encode\<close> returns the reader's error without the final EOL.
\<close>

theorem encode_short_payload:
  assumes "int (length (hleft r h)) < n" "room w = None"
  shows "\<exists>h'. Encode e (BulkString r n) (h, w) =
    (let bs = frame kBulkString (FormatInt n) @ hleft r h
     in Ret ((length bs, Some (hfin r h)), (h', w\<lparr>out := out w @ bs\<rparr>)))"
proof -
  have n: "length (hleft r h) < nat n" "\<not> n \<le> 0" using assms(1) by auto
  let ?w = "w\<lparr>out := out w @ frame kBulkString (FormatInt n)\<rparr>"
  from writeBulk_loop_short [OF n(1), of e 0 ?w] assms(2) obtain h' where
    "writeBulk_loop e r n 0 (h, ?w) = Ret ((length (hleft r h), Some (hfin r h)),
       (h', ?w\<lparr>out := out ?w @ hleft r h\<rparr>))"
    by (auto simp: Write_unbounded)
  then have "writeBulk e (BulkString r n) (h, ?w) = Ret ((length (hleft r h), Some (hfin r h)),
       (h', ?w\<lparr>out := out ?w @ hleft r h\<rparr>))"
    using n(2) by (simp add: writeBulk_def BulkString_def)
  with assms(2) show ?thesis
    unfolding Encode_BulkString by (simp add: enc_then_def put_unbounded enc_skip_def frame_def)
qed

theorem encode_short_payload_witness:
  "\<exists>h'. Encode \<lparr>ChunkSize = 2, BufferSize = 0\<rparr> (BulkString 0 5) (one_reader [''ab'', ''c''], buffer) =
     Ret ((7, Some EOF), (h', buffer\<lparr>out := ''$5'' @ EOL @ ''abc''\<rparr>))"
proof -
  have i: "FormatInt 5 = ''5''" by code_simp
  show ?thesis
    using encode_short_payload [of 0 "one_reader [''ab'', ''c'']" 5 buffer "\<lparr>ChunkSize = 2, BufferSize = 0\<rparr>"]
    by (simp add: i frame_def kind_defs EOL_def numeral_eq_Suc)
qed

text \<open>
  An error message cannot be sent: with an error in its field, \<open>Encode\<close> writes the indicator byte and
  stops with the complaint that the field is empty; without one it dereferences the nil field.
\<close>

theorem error_message_not_encodable:
  "Encode e (NewError err) (h, \<lparr>out = o', room = None, werr = x\<rparr>) =
     (case err of
        Some y \<Rightarrow> Ret ((1, Some (Errorf ''empty Error field for Error type message %s'' [])),
                       (h, \<lparr>out = o' @ ''-'', room = None, werr = x\<rparr>))
      | None \<Rightarrow> Panic ''nil pointer dereference'')"
  by (cases err) (simp_all add: NewError_def Let_def enc_then_def put_unbounded simpleToByte_def kind_defs
      category_defs enc_fail_def enc_panic_def)

subsection \<open>Lines\<close>

lemma line_done_iff: "line_done buf \<longleftrightarrow> (\<exists>line. line \<noteq> [] \<and> buf = line @ EOL)"
proof
  assume d: "line_done buf"
  then have "buf = take (length buf - 2) buf @ EOL" "take (length buf - 2) buf \<noteq> []"
    using lastn_eqD [of EOL buf] by (auto simp: line_done_def)
  then show "\<exists>line. line \<noteq> [] \<and> buf = line @ EOL" by blast
qed (auto simp: line_done_def lastn_def)

text \<open>\<open>is_line buf s l t\<close>: with \<open>buf\<close> already read, \<open>l\<close> is a line that ends in \<open>s\<close> and \<open>t\<close> follows it.\<close>

definition is_line :: "bytes \<Rightarrow> bytes \<Rightarrow> bytes \<Rightarrow> bytes \<Rightarrow> bool" where
  "is_line buf s l t \<longleftrightarrow> length buf < length l + 2 \<and> l \<noteq> [] \<and> buf @ s = l @ EOL @ t"

lemma is_line_step:
  assumes "\<not> line_done (buf @ [c])"
  shows "is_line (buf @ [c]) s l t \<longleftrightarrow> is_line buf (c # s) l t"
proof -
  have "length buf \<noteq> length l + 1" if l: "l \<noteq> []" "buf @ c # s = l @ EOL @ t"
  proof
    assume "length buf = length l + 1"
    then have "buf @ [c] = l @ EOL" using arg_cong [OF l(2), of "take (length l + 2)"] by simp
    with assms l(1) show False by (auto simp: line_done_iff)
  qed
  then show ?thesis unfolding is_line_def by (auto simp: less_Suc_eq)
qed

lemma line_from_iff:
  "\<not> line_done buf \<Longrightarrow> line_from buf s = Some (line, tail) \<longleftrightarrow>
     is_line buf s line tail \<and> (\<forall>l t. is_line buf s l t \<longrightarrow> length line \<le> length l)"
proof (induction s arbitrary: buf)
  case Nil
  then show ?case by (auto simp: is_line_def)
next
  case (Cons c s)
  show ?case
  proof (cases "line_done (buf @ [c])")
    case True
    then obtain l where l: "l \<noteq> []" "buf @ [c] = l @ EOL" by (auto simp: line_done_iff)
    have len: "length buf = length l + 1" using arg_cong [OF l(2), of length] by simp
    have all: "buf @ c # s = l @ EOL @ s" using arg_cong [OF l(2), of "\<lambda>x. x @ s"] by simp
    have out: "line_from buf (c # s) = Some (l, s)" using True l len by simp
    have il: "is_line buf (c # s) l s" using l(1) len all by (simp add: is_line_def)
    have min: "length l \<le> length l'" if "is_line buf (c # s) l' t'" for l' t'
      using that len by (simp add: is_line_def)
    have "line = l \<and> tail = s" if "is_line buf (c # s) line tail" "length line \<le> length l"
    proof -
      have "length line = length l" using min [OF that(1)] that(2) by simp
      moreover have "line @ EOL @ tail = l @ EOL @ s" using that(1) all by (simp add: is_line_def)
      ultimately show ?thesis by simp
    qed
    with out il min show ?thesis by (metis option.inject prod.inject)
  next
    case False
    then show ?thesis using Cons.IH [OF False] by (simp add: is_line_step)
  qed
qed

text \<open>
  C14. \<open>simpleUnmarshal\<close> cuts out the first line that is not empty: the shortest non-empty prefix that is
  followed by an EOL. It returns that prefix and the number of bytes read and leaves the reader right behind the EOL,
  however the reader splits its content; where the content has no such line it returns the reader's error.
\<close>

theorem simpleUnmarshal_first_line:
  "(\<forall>line tail.
     line \<noteq> [] \<and> hleft r h = line @ EOL @ tail \<and>
     (\<forall>l' t'. l' \<noteq> [] \<and> hleft r h = l' @ EOL @ t' \<longrightarrow> length line \<le> length l') \<longrightarrow>
     (\<exists>h'. simpleUnmarshal r h = ((line, int (length line + 2), None), h') \<and> hleft r h' = tail)) \<and>
   ((\<nexists>l t. l \<noteq> [] \<and> hleft r h = l @ EOL @ t) \<longrightarrow>
     (\<exists>n h'. simpleUnmarshal r h = (([], n, Some (hfin r h)), h') \<and> hleft r h' = []))"
proof -
  note iff = line_from_iff [OF not_line_done_Nil, of "hleft r h", unfolded is_line_def, simplified]
  have "line_from [] (hleft r h) = None" if "\<nexists>l t. l \<noteq> [] \<and> hleft r h = l @ EOL @ t"
    using that iff by (cases "line_from [] (hleft r h)") auto
  moreover have "line_from [] (hleft r h) = Some (line, tail)"
    if "line \<noteq> []" "hleft r h = line @ EOL @ tail"
      "\<forall>l' t'. l' \<noteq> [] \<and> hleft r h = l' @ EOL @ t' \<longrightarrow> length line \<le> length l'" for line tail
    using iff [of line tail] that by simp
  ultimately show ?thesis
    using simpleUnmarshal_line [of r h] simpleUnmarshal_none [of r h] by blast
qed

theorem simpleUnmarshal_first_line_witness:
  "\<exists>h'. simpleUnmarshal 0 (one_reader [''OK'' @ [CR], [LF], ''x'']) = ((''OK'', 4, None), h') \<and> hleft 0 h' = ''x''"
proof -
  let ?h = "one_reader [''OK'' @ [CR], [LF], ''x'']"
  have left: "hleft 0 ?h = ''OK'' @ EOL @ ''x''" by (simp add: EOL_def)
  have "length ''OK'' \<le> length l'" if "l' \<noteq> []" "''OK'' @ EOL @ ''x'' = l' @ EOL @ t'" for l' t'
    using that by (cases l'; cases "tl l'") (auto simp: EOL_def)
  then have "''OK'' \<noteq> [] \<and> hleft 0 ?h = ''OK'' @ EOL @ ''x'' \<and>
      (\<forall>l' t'. l' \<noteq> [] \<and> hleft 0 ?h = l' @ EOL @ t' \<longrightarrow> length ''OK'' \<le> length l')"
    unfolding left by blast
  from simpleUnmarshal_first_line [of 0 ?h, THEN conjunct1, THEN spec, THEN spec, THEN mp, OF this]
  show ?thesis by simp
qed

text \<open>
  An empty line is not a line for the decoder: when the stream goes on with EOL, as it does for null, for
  an empty simple string and for an empty big number, the text up to the \<^emph>\<open>next\<close> EOL is swallowed as well, and
  the returned line starts with the EOL.
\<close>

theorem empty_line_swallowed:
  assumes "hleft r h = EOL @ next_line @ EOL @ tail" "LF \<notin> set next_line"
  shows "\<exists>h'. simpleUnmarshal r h = ((EOL @ next_line, int (length next_line + 4), None), h') \<and> hleft r h' = tail"
  using simpleUnmarshal_line [OF line_from_empty [OF assms(2), of tail, folded assms(1)]] by auto

theorem empty_line_swallowed_witness:
  "\<exists>h'. simpleUnmarshal 0 (one_reader [EOL @ '':7'' @ EOL @ ''+OK'' @ EOL]) = ((EOL @ '':7'', 6, None), h') \<and>
     hleft 0 h' = ''+OK'' @ EOL"
  using empty_line_swallowed [of 0 "one_reader [EOL @ '':7'' @ EOL @ ''+OK'' @ EOL]" "'':7''" "''+OK'' @ EOL"] by simp

subsection \<open>Round trips\<close>

lemma scalar_repr: "scalar_msg v = Some m \<Longrightarrow> repr h v m a a"
  by (cases v) (auto intro: repr_reprs.intros split: if_splits)

text \<open>
  C2. One pass of the decoder reads back a scalar message: for a simple string (not empty, without LF), a 64-bit
  integer, a boolean, a double other than NaN and a big number, the bytes \<open>Encode\<close> wrote, in whatever chunks
  they arrive, are assembled to the same message with \<open>TotalMessageSize\<close> equal to the count \<open>Encode\<close>
  returned, and the reader is left at what follows.
\<close>

theorem scalar_round_trip:
  assumes "scalar_msg v = Some m" "concat cs = wire v @ tail" "[] \<notin> set cs"
  shows "\<exists>n h' h''. Encode e m (h, buffer) = Ret ((n, None), (h', buffer\<lparr>out := wire v\<rparr>)) \<and>
    iterate_pass 0 (one_reader cs) = (Assembled (set_TotalMessageSize (int n) m), h'') \<and> hleft 0 h'' = tail"
proof -
  obtain h' where enc: "Encode e m (h, buffer) = Ret ((length (wire v), None), (h', buffer\<lparr>out := wire v\<rparr>))"
    using repr_unbounded [OF scalar_repr [OF assms(1)], where w = buffer and e = e and h = h] by auto
  from scalar_pass [OF assms(1) one_reader_solid [OF assms(3)], of tail] assms(2) enc show ?thesis by auto
qed

theorem scalar_round_trip_witness:
  "\<exists>n h' h''. Encode \<lparr>ChunkSize = 0, BufferSize = 0\<rparr> (Int_msg (- 42)) (empty_heap, buffer) =
       Ret ((n, None), (h', buffer\<lparr>out := '':-42'' @ EOL\<rparr>)) \<and>
     iterate_pass 0 (one_reader ['':-'', ''42'' @ [CR], [LF]]) = (Assembled (set_TotalMessageSize (int n) (Int_msg (- 42))), h'') \<and>
     hleft 0 h'' = []"
proof -
  have i: "FormatInt (- 42) = ''-42''" by code_simp
  have w: "wire (RInt (- 42)) = '':-42'' @ EOL" by (simp add: i frame_def kind_defs)
  show ?thesis
    using scalar_round_trip [of "RInt (- 42)" "Int_msg (- 42)" "['':-'', ''42'' @ [CR], [LF]]" "[]"
        "\<lparr>ChunkSize = 0, BufferSize = 0\<rparr>" empty_heap] unfolding w
    by (simp add: int64_def EOL_def)
qed

text \<open>
  C3. One pass of the decoder and \<open>ReadAll\<close> read back a bulk string: the run length is the payload's length and
  \<open>ReadAll\<close> on the assembled message returns the payload. The reader is then at the payload's trailing EOL, which
  nothing consumes, and \<open>TotalMessageSize\<close> is the count \<open>Encode\<close> returned less those two bytes.
\<close>

theorem bulk_round_trip:
  assumes "NewBulkString s h = (m, h0)" "concat cs = wire (RBulk s) @ tail" "[] \<notin> set cs" "int (length s) < 2 ^ 62"
  shows "\<exists>n h1 m' h2 h3. Encode e m (h0, buffer) = Ret ((n, None), (h1, buffer\<lparr>out := wire (RBulk s)\<rparr>)) \<and>
    iterate_pass 0 (one_reader cs) = (Assembled m', h2) \<and> msgRunLength m' = int (length s) \<and>
    ReadAll m' h2 = Ret ((s, None), h3) \<and> hleft 0 h3 = EOL @ tail \<and>
    msgTotalMessageSize m' = wrap64 (int n - 2)"
proof -
  obtain h1 where enc: "Encode e m (h0, buffer) =
      Ret ((length (wire (RBulk s)), None), (h1, buffer\<lparr>out := wire (RBulk s)\<rparr>))"
    using repr_unbounded [OF NewBulkString_repr(1) [OF assms(1)], of buffer e] by auto
  have "hleft 0 (one_reader cs) = frame kBulkString (FormatInt (int (length s))) @ s @ EOL @ tail"
    using assms(2) by simp
  from bulk_pass [OF one_reader_solid [OF assms(3)] this] assms(4) enc show ?thesis by (force simp: int64_def)
qed

theorem bulk_round_trip_witness:
  "\<exists>n h1 m' h2 h3. Encode \<lparr>ChunkSize = 1, BufferSize = 0\<rparr> (fst (NewBulkString ''abc'' empty_heap))
       (snd (NewBulkString ''abc'' empty_heap), buffer) = Ret ((n, None), (h1, buffer\<lparr>out := wire (RBulk ''abc'')\<rparr>)) \<and>
    iterate_pass 0 (one_reader [wire (RBulk ''abc'')]) = (Assembled m', h2) \<and> msgRunLength m' = 3 \<and>
    ReadAll m' h2 = Ret ((''abc'', None), h3) \<and> hleft 0 h3 = EOL \<and> msgTotalMessageSize m' = wrap64 (int n - 2)"
  using bulk_round_trip [of "''abc''" empty_heap "fst (NewBulkString ''abc'' empty_heap)"
      "snd (NewBulkString ''abc'' empty_heap)" "[wire (RBulk ''abc'')]" "[]" "\<lparr>ChunkSize = 1, BufferSize = 0\<rparr>"]
  by (simp add: frame_def)

subsection \<open>What Decode returns\<close>

text \<open>
  C19. \<open>Decode\<close> never hands out a message: for every reader and every content it returns the zero
  \<open>Message\<close>, with the first error of the stream; \<open>Iterate\<close> yields exactly one pair and stops.
\<close>

theorem decode_returns_no_message:
  "\<exists>err h'. Iterate r h = ([(zero_msg, err)], h') \<and> Decode r h = ((zero_msg, err), h')"
  using Iterate_single [of r h] by (auto simp: Decode_def)

lemma Iterate_scalars:
  "list_all (\<lambda>v. scalar_msg v \<noteq> None) vs \<Longrightarrow> solid r h \<Longrightarrow> hleft r h = concat (map wire vs) \<Longrightarrow>
   \<exists>h'. Iterate r h = ([(zero_msg, Some (hfin r h))], h') \<and> hleft r h' = []"
proof (induction vs arbitrary: h)
  case Nil
  then show ?case using Iterate_end [of r h] by simp
next
  case (Cons v vs)
  then obtain m where m: "scalar_msg v = Some m" by auto
  from scalar_pass [OF m Cons.prems(2), of "concat (map wire vs)"] Cons.prems(3) obtain h1 where
    h1: "iterate_pass r h = (Assembled (set_TotalMessageSize (int (length (wire v))) m), h1)"
      "hleft r h1 = concat (map wire vs)" "hfin r h1 = hfin r h" "solid r h1" by auto
  then show ?case using Cons.IH [of h1] Cons.prems(1) Iterate_Assembled [OF h1(1)] by simp
qed

text \<open>
  On a well-formed stream of scalar messages \<open>Decode\<close> consumes all of them, to the end of the stream,
  and reports the end of the stream in place of the first message.
\<close>

theorem decode_consumes_stream:
  assumes "list_all (\<lambda>v. scalar_msg v \<noteq> None) vs" "concat cs = concat (map wire vs)" "[] \<notin> set cs"
  shows "\<exists>h'. Decode 0 (one_reader cs) = ((zero_msg, Some EOF), h') \<and> hleft 0 h' = []"
  using Iterate_scalars [OF assms(1) one_reader_solid [OF assms(3)]] assms(2) by (auto simp: Decode_def)

theorem decode_consumes_stream_witness:
  "\<exists>h'. Decode 0 (one_reader [''+OK'' @ EOL @ '':7'' @ EOL]) = ((zero_msg, Some EOF), h') \<and> hleft 0 h' = []"
proof -
  have i: "FormatInt 7 = ''7''" by code_simp
  have "concat (map wire [RSimple ''OK'', RInt 7]) = ''+OK'' @ EOL @ '':7'' @ EOL"
    by (simp add: i frame_def kind_defs)
  then show ?thesis
    using decode_consumes_stream [of "[RSimple ''OK'', RInt 7]" "[''+OK'' @ EOL @ '':7'' @ EOL]"]
    by (simp add: int64_def)
qed

lemma chunk_from_pairs:
  "even i \<Longrightarrow> chunk_from i kv (concat (map (\<lambda>(k, v). [(k, None), (v, None)]) kvs) @ xs) =
     map (\<lambda>kv. (kv, None)) kvs @ chunk_from (i + 2 * length kvs) (last (kv # kvs)) xs"
  by (induction kvs arbitrary: i kv) (auto simp: Let_def mod_Suc even_iff_mod_2_eq_zero)

text \<open>
  \<open>chunk\<close> groups an error-free sequence into key/value pairs, in order and without loss; a key that is
  left without a value at the end is dropped.
\<close>

theorem chunk_pairs:
  "chunk (concat (map (\<lambda>(k, v). [(k, None), (v, None)]) kvs)) = map (\<lambda>kv. (kv, None)) kvs \<and>
   chunk (concat (map (\<lambda>(k, v). [(k, None), (v, None)]) kvs) @ [(m, None)]) = map (\<lambda>kv. (kv, None)) kvs"
  using chunk_from_pairs [of 0 "(zero_msg, zero_msg)" kvs "[]"] chunk_from_pairs [of 0 "(zero_msg, zero_msg)" kvs "[(m, None)]"]
  by (simp add: chunk_def Let_def)

text \<open>
  \<open>ReadAll\<close> returns the payload when the reader holds at least the run length, and never an error: a
  reader that ends early gives the empty string, so a truncated payload looks like an empty one.
\<close>

theorem ReadAll_total:
  assumes "msgReader m = Some r" "0 < msgRunLength m"
  shows "\<exists>h'. ReadAll m h = Ret ((if nat (msgRunLength m) \<le> length (hleft r h)
      then take (nat (msgRunLength m)) (hleft r h) else [], None), h') \<and>
    hleft r h' = drop (nat (msgRunLength m)) (hleft r h)"
  using ReadAll_full [OF assms(1), of h] ReadAll_short [OF assms(1), of h] assms(2) by auto

theorem ReadAll_total_witness:
  "(\<exists>h'. ReadAll (BulkString 0 3) (one_reader [''a'', ''bcd'']) = Ret ((''abc'', None), h') \<and> hleft 0 h' = ''d'') \<and>
   (\<exists>h'. ReadAll (BulkString 0 3) (one_reader [''a'', ''b'']) = Ret (([], None), h') \<and> hleft 0 h' = [])"
  using ReadAll_total [of "BulkString 0 3" 0 "one_reader [''a'', ''bcd'']"]
    ReadAll_total [of "BulkString 0 3" 0 "one_reader [''a'', ''b'']"]
  by (simp add: BulkString_def)

end
