(* ===== verification/Heap_Frame.thy ===== *)
theory Heap_Frame
  imports Codec
begin

text \<open>
  What decoding and encoding leave alone. Decoding from a reader changes that reader and the ones below it and
  allocates above everything else: the objects in between stay as they are. Encoding never gives addresses back.
\<close>

definition kept_above :: "rid \<Rightarrow> heap \<Rightarrow> heap \<Rightarrow> bool" where
  "kept_above r h h' \<longleftrightarrow> brk h \<le> brk h' \<and> (\<forall>i. r < i \<longrightarrow> i < brk h \<longrightarrow> objs h' i = objs h i)"

lemma kept_above_refl [simp]: "kept_above r h h"
  by (simp add: kept_above_def)

lemma kept_above_trans: "kept_above r h h1 \<Longrightarrow> kept_above r h1 h2 \<Longrightarrow> kept_above r h h2"
  by (auto simp: kept_above_def)

lemma hread_brk: "hread r k h = (x, h') \<Longrightarrow> brk h' = brk h"
proof (induction r k h arbitrary: x h' rule: hread.induct)
  case (1 r k h)
  show ?case
  proof (cases rule: robj_cases [of h r])
    case (Src s)
    then show ?thesis using 1 by (auto simp: hread_Src)
  next
    case (Lim r' n)
    obtain p e h1 where r1: "hread r' (min k (nat n)) h = ((p, e), h1)" by (metis surj_pair)
    have "brk h1 = brk h" using "1.IH" [OF Lim(1) _ r1] Lim by auto
    then show ?thesis using "1.prems" hread_Lim [OF Lim r1] by auto
  next
    case (End r' n)
    then show ?thesis using "1.prems" hread_Lim_end by fastforce
  qed
qed

lemma hread_kept: "hread r k h = (x, h') \<Longrightarrow> kept_above r h h'"
  using hread_brk [of r k h x h'] hread_above [of r _ k h x h'] by (simp add: kept_above_def)

lemma simpleUnmarshal_loop_kept: "simpleUnmarshal_loop r buf h = (x, h') \<Longrightarrow> kept_above r h h'"
proof (induction r buf h rule: simpleUnmarshal_loop.induct)
  case (1 r buf h)
  obtain b e h1 where b: "hread r 1 h = ((b, e), h1)" by (metis surj_pair)
  show ?case
  proof (cases "e = None \<and> \<not> line_done (buf @ b)")
    case True
    then have "simpleUnmarshal_loop r (buf @ b) h1 = (x, h')"
      using "1.prems" b by (simp add: simpleUnmarshal_loop.simps [of r buf h])
    from "1.IH" [OF b [symmetric] refl _ refl _ this] True show ?thesis
      using hread_kept [OF b] kept_above_trans by blast
  next
    case False
    then have "h' = h1"
      using "1.prems" b by (auto simp: simpleUnmarshal_loop.simps [of r buf h] split: option.splits)
    then show ?thesis using hread_kept [OF b] by simp
  qed
qed

lemma simpleUnmarshal_kept: "simpleUnmarshal r h = (x, h') \<Longrightarrow> kept_above r h h'"
  unfolding simpleUnmarshal_def by (rule simpleUnmarshal_loop_kept)

lemma decode_body_kept: "decode_body r k t n enc h = (x, h') \<Longrightarrow> kept_above r h h'"
  by (auto simp: decode_body_def LimitReader_def Let_def kept_above_def split: if_splits)

lemma decode_aggregate_kept: "decode_aggregate r k h = (x, h') \<Longrightarrow> kept_above r h h'"
  unfolding decode_aggregate_def
  by (auto simp: Let_def split: prod.splits option.splits sum.splits if_splits
      dest!: simpleUnmarshal_kept decode_body_kept intro: kept_above_trans)

lemma iterate_pass_kept:
  assumes "iterate_pass r h = (x, h')"
  shows "kept_above r h h'"
proof -
  obtain b e h1 where b: "hread r 1 h = ((b, e), h1)" by (metis surj_pair)
  have "kept_above r h1 h'"
    using assms b unfolding iterate_pass_def
    by (auto simp: Let_def split: prod.splits option.splits if_splits list.splits
        dest!: simpleUnmarshal_kept decode_aggregate_kept)
  then show ?thesis by (rule kept_above_trans [OF hread_kept [OF b]])
qed

lemma Iterate_kept: "Iterate r h = (xs, h') \<Longrightarrow> kept_above r h h'"
proof (induction r h rule: Iterate.induct)
  case (1 r h)
  obtain x h1 where x: "iterate_pass r h = (x, h1)" by (metis surj_pair)
  note first = iterate_pass_kept [OF x]
  show ?case
  proof (cases x)
    case (Yield m err)
    with x "1.prems" Iterate_Yield first show ?thesis by auto
  next
    case (Assembled m)
    with x "1.prems" have "Iterate r h1 = (xs, h')" using Iterate_Assembled by metis
    from "1.IH" [OF x [symmetric] Assembled this] show ?thesis by (rule kept_above_trans [OF first])
  qed
qed

lemma Decode_kept: "Decode r h = (x, h') \<Longrightarrow> kept_above r h h'"
  by (auto simp: Decode_def split: prod.splits list.splits dest: Iterate_kept)

subsection \<open>Encoding\<close>

definition enc_grows :: "enc \<Rightarrow> bool" where
  "enc_grows a \<longleftrightarrow> (\<forall>h w x h' w'. a (h, w) = Ret (x, (h', w')) \<longrightarrow> brk h \<le> brk h')"

lemma enc_growsD: "enc_grows a \<Longrightarrow> a (h, w) = Ret (x, (h', w')) \<Longrightarrow> brk h \<le> brk h'"
  unfolding enc_grows_def by blast

lemma grows_skip: "enc_grows enc_skip" and grows_fail: "enc_grows (enc_fail err)"
  and grows_panic: "enc_grows (enc_panic s)" and grows_blocked: "enc_grows (\<lambda>st. Blocked)"
  and grows_put: "enc_grows (put p)"
  by (auto simp: enc_grows_def enc_skip_def enc_fail_def enc_panic_def put_def Let_def split: prod.splits)

lemma grows_then:
  assumes "enc_grows a" "enc_grows b"
  shows "enc_grows (enc_then a b)"
  unfolding enc_grows_def
proof (intro allI impI)
  fix h w x h' w' assume r: "enc_then a b (h, w) = Ret (x, (h', w'))"
  then obtain n1 e1 h1 w1 where a: "a (h, w) = Ret ((n1, e1), (h1, w1))"
    by (auto simp: enc_then_def)
  note le = enc_growsD [OF assms(1) a]
  show "brk h \<le> brk h'"
  proof (cases e1)
    case None
    then obtain y where "b (h1, w1) = Ret (y, (h', w'))" using r a by (auto simp: enc_then_def)
    then show ?thesis using le enc_growsD [OF assms(2)] by fastforce
  qed (use r a le in \<open>auto simp: enc_then_def\<close>)
qed

lemma writeBulk_loop_brk:
  "writeBulk_loop e r left tot (h, w) = Ret (x, (h', w')) \<Longrightarrow> brk h' = brk h"
proof (induction e r left tot "(h, w)" arbitrary: h w rule: writeBulk_loop.induct)
  case (1 e r left tot h w)
  show ?case
  proof (cases "left \<le> 0")
    case True
    then show ?thesis using "1.prems" by (auto simp: writeBulk_loop.simps put_def Let_def split: prod.splits)
  next
    case False
    then obtain b where b: "emptyBuffer (ChunkSize e) left = Ret b"
      using "1.prems" by (auto simp: writeBulk_loop.simps [of e r left] split: go.splits)
    obtain p er h1 where p: "hread r (length b) h = ((p, er), h1)" by (metis surj_pair)
    obtain n ew w1 where w1: "Write p w = ((n, ew), w1)" by (metis surj_pair)
    note same = hread_brk [OF p]
    show ?thesis
    proof (cases "er = None \<and> ew = None")
      case True
      then have "writeBulk_loop e r (left - int n) (tot + n) (h1, w1) = Ret (x, (h', w'))"
        using "1.prems" False b p w1 by (simp add: writeBulk_loop.simps [of e r left])
      with "1.hyps" [OF False b p [symmetric] refl _ w1 [symmetric] refl _ ] True same show ?thesis by simp
    next
      case stop: False
      then show ?thesis
        using "1.prems" False b p w1 same by (auto simp: writeBulk_loop.simps [of e r left] split: option.splits)
    qed
  qed
qed

lemma grows_writeBulk: "enc_grows (writeBulk e m)"
  using writeBulk_loop_brk [of e _ "msgRunLength m" 0]
  by (auto simp: writeBulk_def grows_put grows_panic split: option.split) (simp add: enc_grows_def, metis order_refl)

lemma grows_after:
  assumes "\<And>xs. enc_grows (f xs)" "\<And>h xs h'. g h = (xs, h') \<Longrightarrow> brk h \<le> brk h'"
  shows "enc_grows (\<lambda>(h, w). case g h of (xs, h') \<Rightarrow> f xs (h', w))"
  unfolding enc_grows_def
proof (intro allI impI)
  fix h w x h' w' assume r: "(case (h, w) of (h, w) \<Rightarrow> case g h of (xs, h') \<Rightarrow> f xs (h', w)) = Ret (x, (h', w'))"
  obtain xs h1 where g: "g h = (xs, h1)" by fastforce
  with r have "f xs (h1, w) = Ret (x, (h', w'))" by simp
  then show "brk h \<le> brk h'" using enc_growsD [OF assms(1)] assms(2) [OF g] by fastforce
qed

lemma Iterate_grows: "Iterate r h = (xs, h') \<Longrightarrow> brk h \<le> brk h'"
  using Iterate_kept by (auto simp: kept_above_def)

interpretation grw: enc_closed enc_grows
proof unfold_locales
  show "enc_grows (\<lambda>(h, w). case Iterate r h of (xs, h') \<Rightarrow> f xs (h', w))" if "\<And>xs. enc_grows (f xs)" for f r
    by (rule grows_after [OF that Iterate_grows])
qed (simp_all add: grows_skip grows_fail grows_panic grows_blocked grows_put grows_then grows_writeBulk)

lemmas Encode_grows = enc_growsD [OF grw.encode(1)]

end
