(* ===== verification/Conn.thy ===== *)
theory Conn
  imports Heap_Frame
begin

text \<open>
  \<^verbatim>\<open>protocol/conn.go\<close>: a connection with a mutex around a buffered reader and a buffered writer.

  The reader is an address of the heap. The writer \<open>cWriter\<close> holds all the bytes the \<open>bufio.Writer\<close> has accepted, of
  which the first \<open>cFlushed\<close> have gone to the peer \<open>cPeer\<close>; \<open>Flush\<close> hands on the rest. (When its buffer is full a
  \<open>bufio.Writer\<close> hands bytes on earlier; what the peer has after a flush is the same.) A writer error is sticky.

  The mutex is not reentrant: locking a locked connection from the goroutine that holds it blocks for ever.
\<close>

record Conn =
  cLocked :: bool
  cReader :: rid
  cWriter :: writer
  cFlushed :: nat
  cPeer :: writer
  cEncoder :: Encoder

type_synonym 'a conn_op = "heap \<times> Conn \<Rightarrow> ('a \<times> heap \<times> Conn) go"

text \<open>
  A fresh \<open>bufio.Writer\<close> hands on its 4096 bytes whenever they are full, so over a peer that takes \<open>n\<close> more bytes it
  accepts one block more than the full blocks of \<open>n\<close>.
\<close>

definition NewConnection :: "rid \<Rightarrow> writer \<Rightarrow> Conn" where
  "NewConnection r peer =
     \<lparr>cLocked = False, cReader = r,
      cWriter = \<lparr>out = [], room = map_option (\<lambda>n. 4096 * (n div 4096 + 1)) (room peer), werr = werr peer\<rparr>,
      cFlushed = 0, cPeer = peer, cEncoder = \<lparr>ChunkSize = 0, BufferSize = 0\<rparr>\<rparr>"

text \<open>\<^verbatim>\<open>conn.Lock(); defer conn.Unlock()\<close> around the rest of a method.\<close>

definition with_lock :: "'a conn_op \<Rightarrow> 'a conn_op" where
  "with_lock f = (\<lambda>(h, c).
     if cLocked c then Blocked
     else go_bind (f (h, c\<lparr>cLocked := True\<rparr>)) (\<lambda>(x, h', c'). Ret (x, h', c'\<lparr>cLocked := False\<rparr>)))"

definition rw_flush :: "(error option) conn_op" where
  "rw_flush = (\<lambda>(h, c).
     let p = drop (cFlushed c) (out (cWriter c)); ((n, err), peer') = Write p (cPeer c);
         w' = (case err of None \<Rightarrow> cWriter c | Some e \<Rightarrow> (cWriter c)\<lparr>room := Some 0, werr := e\<rparr>)
     in Ret (err, h, c\<lparr>cFlushed := cFlushed c + n, cPeer := peer', cWriter := w'\<rparr>))"

definition rw_write :: "bytes \<Rightarrow> (nat \<times> error option) conn_op" where
  "rw_write p = (\<lambda>(h, c). let (r, w') = Write p (cWriter c) in Ret (r, h, c\<lparr>cWriter := w'\<rparr>))"

definition Conn_Read :: "(message \<times> error option) conn_op" where
  "Conn_Read = with_lock (\<lambda>(h, c). let (r, h') = Decode (cReader c) h in Ret (r, h', c))"

definition Conn_Write :: "message \<Rightarrow> (nat \<times> error option) conn_op" where
  "Conn_Write m = with_lock (\<lambda>(h, c).
     go_bind (Encode (cEncoder c) m (h, cWriter c)) (\<lambda>(r, h', w'). Ret (r, h', c\<lparr>cWriter := w'\<rparr>)))"

definition Conn_Flush :: "(error option) conn_op" where
  "Conn_Flush = with_lock rw_flush"

definition RawRoundtrip :: "bytes \<Rightarrow> (message \<times> error option) conn_op" where
  "RawRoundtrip data = with_lock (\<lambda>st.
     go_bind (rw_write data st) (\<lambda>((n, err), st1).
       if err \<noteq> None then Ret ((zero_msg, err), st1)
       else go_bind (rw_flush st1) (\<lambda>(err, st2).
         if err \<noteq> None then Ret ((zero_msg, err), st2)
         else go_bind (Conn_Read st2) (\<lambda>((msg, err), st3).
           if err \<noteq> None then Ret ((zero_msg, err), st3) else Ret ((msg, None), st3)))))"

text \<open>The error of \<open>Flush\<close> is overwritten by that of \<open>Read\<close>.\<close>

definition RoundTrip :: "message \<Rightarrow> (message \<times> error option) conn_op" where
  "RoundTrip msg st =
     go_bind (Conn_Write msg st) (\<lambda>((n, err), st1).
       if err \<noteq> None then Ret ((zero_msg, err), st1)
       else go_bind (Conn_Flush st1) (\<lambda>(_, st2).
         go_bind (Conn_Read st2) (\<lambda>((resp, err), st3). Ret ((resp, err), st3))))"

subsection \<open>Locking\<close>

text \<open>The contract of a method of the connection: it waits for the lock and returns only after releasing it.\<close>

locale lock_guarded =
  fixes op :: "'a conn_op"
  assumes held_blocks: "cLocked c \<Longrightarrow> op (h, c) = Blocked"
    and releases: "op (h, c) = Ret (x, h', c') \<Longrightarrow> \<not> cLocked c'"
begin

text \<open>So a call made while the lock is held never returns, and calls one after the other find the lock free.\<close>

lemma inside_blocks: "cLocked c \<Longrightarrow> go_bind (op (h, c)) f = Blocked"
  by (simp add: held_blocks)

lemma free_before: "op (h, c) = Ret r \<Longrightarrow> \<not> cLocked c"
  using held_blocks [of c h] by auto

lemma free_after: "op (h, c) = Ret (x, st) \<Longrightarrow> \<not> cLocked (snd st)"
  using releases by (cases st) auto

end

lemma with_lock_guarded: "lock_guarded (with_lock f)"
  by unfold_locales (auto simp: with_lock_def split: if_splits)

interpretation rd: lock_guarded Conn_Read
  unfolding Conn_Read_def by (rule with_lock_guarded)

interpretation cw: lock_guarded "Conn_Write m" for m
  unfolding Conn_Write_def by (rule with_lock_guarded)

interpretation fl: lock_guarded Conn_Flush
  unfolding Conn_Flush_def by (rule with_lock_guarded)

interpretation rr: lock_guarded "RawRoundtrip data" for data
  unfolding RawRoundtrip_def by (rule with_lock_guarded)

interpretation rt: lock_guarded "RoundTrip m" for m
proof unfold_locales
  show "cLocked c \<Longrightarrow> RoundTrip m (h, c) = Blocked" for c h
    by (simp add: RoundTrip_def cw.inside_blocks)
  show "RoundTrip m (h, c) = Ret (x, h', c') \<Longrightarrow> \<not> cLocked c'" for c h x h' c'
    by (auto simp: RoundTrip_def go_bind_Ret_iff dest: cw.releases rd.releases split: if_splits)
qed

subsection \<open>Properties\<close>

lemma Conn_Read_zero:
  "\<not> cLocked c \<Longrightarrow> \<exists>err h'. Conn_Read (h, c) = Ret ((zero_msg, err), h', c)"
  using Iterate_single [of "cReader c" h] by (auto simp: Conn_Read_def with_lock_def Decode_def)

lemma Conn_Flush_ret: "\<not> cLocked c \<Longrightarrow> \<exists>err c'. Conn_Flush (h, c) = Ret (err, h, c') \<and> cReader c' = cReader c"
  by (auto simp: Conn_Flush_def with_lock_def rw_flush_def Let_def split: prod.split)

text \<open>
  The methods of a connection are mutually exclusive and leave the lock free: on a locked connection every one of
  them blocks, and one that returns has released the lock.
\<close>

theorem conn_lock_discipline:
  "(cLocked c \<longrightarrow> Conn_Read (h, c) = Blocked \<and> Conn_Write m (h, c) = Blocked \<and> Conn_Flush (h, c) = Blocked \<and>
      RoundTrip m (h, c) = Blocked \<and> RawRoundtrip p (h, c) = Blocked) \<and>
   (\<forall>x h' c'. Conn_Read (h, c) = Ret (x, h', c') \<longrightarrow> \<not> cLocked c') \<and>
   (\<forall>x h' c'. Conn_Write m (h, c) = Ret (x, h', c') \<longrightarrow> \<not> cLocked c') \<and>
   (\<forall>x h' c'. Conn_Flush (h, c) = Ret (x, h', c') \<longrightarrow> \<not> cLocked c') \<and>
   (\<forall>x h' c'. RoundTrip m (h, c) = Ret (x, h', c') \<longrightarrow> \<not> cLocked c') \<and>
   (\<forall>x h' c'. RawRoundtrip p (h, c) = Ret (x, h', c') \<longrightarrow> \<not> cLocked c')"
  by (intro conjI allI impI; (erule rd.held_blocks | erule cw.held_blocks | erule fl.held_blocks | erule rt.held_blocks
      | erule rr.held_blocks | erule rd.releases | erule cw.releases | erule fl.releases | erule rt.releases | erule rr.releases))

abbreviation a_conn :: Conn where
  "a_conn \<equiv> NewConnection 0 buffer"

theorem conn_lock_discipline_witness:
  "Conn_Read (empty_heap, a_conn\<lparr>cLocked := True\<rparr>) = Blocked \<and>
   (\<exists>x h' c'. Conn_Flush (empty_heap, a_conn) = Ret (x, h', c') \<and> \<not> cLocked c')"
proof -
  obtain x h' c' where f: "Conn_Flush (empty_heap, a_conn) = Ret (x, h', c')"
    using Conn_Flush_ret [of a_conn empty_heap] by (auto simp: NewConnection_def)
  have "cLocked (a_conn\<lparr>cLocked := True\<rparr>)" by simp
  then have "Conn_Read (empty_heap, a_conn\<lparr>cLocked := True\<rparr>) = Blocked"
    using conn_lock_discipline [of "a_conn\<lparr>cLocked := True\<rparr>" empty_heap undefined undefined, THEN conjunct1] by blast
  moreover have "\<not> cLocked c'"
    using conn_lock_discipline [of a_conn empty_heap undefined undefined, THEN conjunct2, THEN conjunct2, THEN conjunct2,
        THEN conjunct1] f by blast
  ultimately show ?thesis using f by blast
qed

text \<open>
  \<open>RawRoundtrip\<close> never returns an answer: it holds the lock when it calls \<open>Read\<close>, which takes the lock again, so
  once the request has been written and flushed it blocks for ever; it returns only the error of the write or the flush.
\<close>

theorem raw_round_trip_deadlock:
  assumes "\<not> cLocked c"
  shows "RawRoundtrip p (h, c) = Blocked \<or> (\<exists>e st. RawRoundtrip p (h, c) = Ret ((zero_msg, Some e), st))"
proof -
  obtain n err w where w: "Write p (cWriter c) = ((n, err), w)" by (metis surj_pair)
  show ?thesis
  proof (cases err)
    case None
    let ?c = "c\<lparr>cLocked := True, cWriter := w\<rparr>"
    obtain k err2 peer where f: "Write (drop (cFlushed c) (out w)) (cPeer c) = ((k, err2), peer)" by (metis surj_pair)
    then show ?thesis
      using assms w None by (cases err2) (simp_all add: RawRoundtrip_def with_lock_def rw_write_def rw_flush_def rd.held_blocks)
  qed (use assms w in \<open>simp add: RawRoundtrip_def with_lock_def rw_write_def\<close>)
qed

theorem raw_round_trip_deadlock_witness:
  "RawRoundtrip ''+PING'' (empty_heap, a_conn) = Blocked"
proof -
  have u: "\<not> cLocked a_conn" by (simp add: NewConnection_def)
  have no: "RawRoundtrip ''+PING'' (empty_heap, a_conn) \<noteq> Ret ((zero_msg, Some e), st)" for e st
    by (simp add: RawRoundtrip_def with_lock_def rw_write_def rw_flush_def Write_def NewConnection_def Conn_Read_def Let_def)
  show ?thesis using raw_round_trip_deadlock [OF u, of "''+PING''" empty_heap] no by blast
qed

text \<open>
  A connection in good order: free, everything it accepted handed on, and neither end refusing bytes. A round trip
  hands on the wire form of its request and leaves the connection in good order; on the heap it changes only the
  readers of the request and those up to the connection's own.
\<close>

definition clean_conn :: "Conn \<Rightarrow> bool" where
  "clean_conn c \<longleftrightarrow> \<not> cLocked c \<and> room (cWriter c) = None \<and> room (cPeer c) = None \<and> cFlushed c = length (out (cWriter c))"

lemma clean_NewConnection: "room peer = None \<Longrightarrow> clean_conn (NewConnection r peer)"
  by (simp add: clean_conn_def NewConnection_def)

lemma RoundTrip_clean:
  assumes "repr h v m a b" "clean_conn c"
  obtains err h1 h' c' where "RoundTrip m (h, c) = Ret ((zero_msg, err), h', c')" "clean_conn c'"
    "cReader c' = cReader c" "out (cPeer c') = out (cPeer c) @ wire v"
    "same_outside a b h h1" "brk h \<le> brk h1" "kept_above (cReader c) h1 h'"
    "\<exists>w'. Encode (cEncoder c) m (h, cWriter c) = Ret ((length (wire v), None), (h1, w'))"
    "Decode (cReader c) h1 = ((zero_msg, err), h')"
proof -
  let ?w = "cWriter c"
  have u: "room ?w = None" using assms(2) by (simp add: clean_conn_def)
  obtain h1 where enc: "Encode (cEncoder c) m (h, ?w) = Ret ((length (wire v), None), (h1, ?w\<lparr>out := out ?w @ wire v\<rparr>))"
    and out: "same_outside a b h h1"
    using repr_emits [OF assms(1), of "cEncoder c"] Write_unbounded [OF u, of "wire v"]
    unfolding enc_emits_def by (metis fst_conv snd_conv)
  let ?c1 = "c\<lparr>cWriter := ?w\<lparr>out := out ?w @ wire v\<rparr>\<rparr>"
  let ?c2 = "?c1\<lparr>cFlushed := cFlushed c + length (wire v), cPeer := (cPeer c)\<lparr>out := out (cPeer c) @ wire v\<rparr>\<rparr>"
  have w: "Conn_Write m (h, c) = Ret ((length (wire v), None), h1, ?c1)"
    using enc assms(2) by (simp add: Conn_Write_def with_lock_def clean_conn_def)
  have f: "Conn_Flush (h1, ?c1) = Ret (None, h1, ?c2)"
    using assms(2) by (simp add: Conn_Flush_def with_lock_def rw_flush_def clean_conn_def Write_unbounded)
  obtain err h' where d: "Decode (cReader c) h1 = ((zero_msg, err), h')"
    using Iterate_single [of "cReader c" h1] by (auto simp: Decode_def)
  then have "Conn_Read (h1, ?c2) = Ret ((zero_msg, err), h', ?c2)"
    using assms(2) by (simp add: Conn_Read_def with_lock_def clean_conn_def)
  with w f have "RoundTrip m (h, c) = Ret ((zero_msg, err), h', ?c2)" by (simp add: RoundTrip_def)
  moreover have "clean_conn ?c2" using assms(2) by (simp add: clean_conn_def)
  ultimately show thesis using that [of err h' ?c2 h1] out enc d Encode_grows [OF enc] Decode_kept [OF d] by simp
qed

text \<open>
  C25. \<open>RoundTrip\<close> with a well-formed request over a fresh connection to a healthy peer sends exactly the wire form of the
  request, and its answer is that of \<open>Decode\<close> on the connection's reader as encoding the request leaves the readers: the zero
  message, and the very error \<open>Decode\<close> ends with. Encoding moves no reader but those of the request, and the mutex is free
  afterwards.
\<close>

theorem round_trip_sends_wire:
  assumes "repr h v m a b" "room peer = None"
  shows "\<exists>h1 w' err h' c'.
    Encode (cEncoder (NewConnection r peer)) m (h, cWriter (NewConnection r peer)) = Ret ((length (wire v), None), (h1, w')) \<and>
    same_outside a b h h1 \<and> Decode r h1 = ((zero_msg, err), h') \<and>
    RoundTrip m (h, NewConnection r peer) = Ret ((zero_msg, err), h', c') \<and>
    out (cPeer c') = out peer @ wire v \<and> \<not> cLocked c'"
  by (rule RoundTrip_clean [OF assms(1) clean_NewConnection [OF assms(2), of r]])
    (auto simp: NewConnection_def clean_conn_def)

text \<open>The request is sent and its answer has arrived; what is returned is the end of the stream behind the answer.\<close>

theorem round_trip_sends_wire_witness:
  "case NewOutgoingCommand [''PING''] (one_reader [''+PONG'' @ EOL]) of (m, h) \<Rightarrow>
     \<exists>h' c'. RoundTrip m (h, NewConnection 0 buffer) = Ret ((zero_msg, Some EOF), h', c') \<and>
       out (cPeer c') = ''*1'' @ EOL @ ''$4'' @ EOL @ ''PING'' @ EOL"
proof -
  let ?h0 = "one_reader [''+PONG'' @ EOL]"
  obtain m h where m: "NewOutgoingCommand [''PING''] ?h0 = (m, h)" by fastforce
  have r: "repr h (RArray [RBulk ''PING'']) m 1 (brk h)" using NewOutgoingCommand_repr [OF m] by (simp add: one_reader_def)
  have len: "FormatInt 1 = ''1''" "FormatInt 4 = ''4''" by code_simp+
  have h: "objs h 0 = Src \<lparr>chunks = [''+PONG'' @ EOL], final = EOF\<rparr>"
    using m by (auto simp: NewOutgoingCommand_def NewBulkString_def NewArray_def NewBufferString_def new_reader_def one_reader_def)
  obtain h1 err h' c' where rt: "same_outside 1 (brk h) h h1" "Decode 0 h1 = ((zero_msg, err), h')"
      "RoundTrip m (h, NewConnection 0 buffer) = Ret ((zero_msg, err), h', c')"
      "out (cPeer c') = wire (RArray [RBulk ''PING''])"
    using round_trip_sends_wire [OF r, of buffer 0] by auto
  have o: "objs h1 0 = Src \<lparr>chunks = [''+PONG'' @ EOL], final = EOF\<rparr>" using rt(1) h by (simp add: same_outside_def)
  then have "solid 0 h1" "hleft 0 h1 = concat (map wire [RSimple ''PONG''])" "hfin 0 h1 = EOF"
    by (simp_all add: solid_def heap_view_Src rest_def frame_def kind_defs)
  then have "err = Some EOF" using Iterate_scalars [of "[RSimple ''PONG'']" 0 h1] rt(2) by (auto simp: Decode_def)
  then show ?thesis using m rt(3,4) by (auto simp: frame_def kind_defs len)
qed

end
