(* ===== verification/Badger.thy ===== *)
theory Badger
  imports Go_Prelude "HOL-Library.AList"
begin

text \<open>
  The key-value database the stores are built on. It is a library of its own, so the models take its operations as
  a parameter \<open>B\<close>: a record of what the sources call. What its documentation promises is the locale
  \<open>badger_laws\<close>, and \<open>badger_healthy\<close> adds that the disk does not fail. An ordered in-memory database with a limit
  on the size of a transaction shows that the laws can hold.

  A transaction sees the database as it was when the transaction began together with its own writes. An iterator is
  the list of keys it visits after \<open>Seek\<close>, taken when it is created. \<open>txnGet\<close> is \<open>Get\<close> followed by
  \<open>ValueCopy\<close> on the item, each with an error of its own.
\<close>

record ('db, 't) badger =
  dbErr :: "'db \<Rightarrow> error option"
  NewTransaction :: "'db \<Rightarrow> 't"
  txnGet :: "'t \<Rightarrow> bytes \<Rightarrow> error + (error + bytes)"
  txnSet :: "'t \<Rightarrow> bytes \<Rightarrow> bytes \<Rightarrow> error option \<times> 't"
  txnDelete :: "'t \<Rightarrow> bytes \<Rightarrow> error option \<times> 't"
  txnSeek :: "'t \<Rightarrow> bool \<Rightarrow> bytes \<Rightarrow> bytes list"
  txnCommit :: "'db \<Rightarrow> 't \<Rightarrow> error option \<times> 'db"

text \<open>
  \<open>DB.View\<close> runs a function on a transaction it throws away; \<open>DB.Update\<close> commits the transaction unless the
  function fails. Both refuse a closed database.
\<close>

definition View :: "('db, 't) badger \<Rightarrow> 'db \<Rightarrow> ('t \<Rightarrow> error + 'a) \<Rightarrow> error + 'a" where
  "View B db f = (case dbErr B db of Some e \<Rightarrow> Inl e | None \<Rightarrow> f (NewTransaction B db))"

definition Update :: "('db, 't) badger \<Rightarrow> 'db \<Rightarrow> ('t \<Rightarrow> error option \<times> 't) \<Rightarrow> error option \<times> 'db" where
  "Update B db f =
     (case dbErr B db of
        Some e \<Rightarrow> (Some e, db)
      | None \<Rightarrow> (case f (NewTransaction B db) of (Some e, t) \<Rightarrow> (Some e, db) | (None, t) \<Rightarrow> txnCommit B db t))"

text \<open>
  \<open>Item.KeyCopy(dst)\<close> with a buffer of nine bytes, of which the caller keeps looking at the buffer: a key that fits
  is written over its beginning; for a longer one the library allocates and the buffer stays as it was.
\<close>

definition KeyCopy9 :: "bytes \<Rightarrow> bytes" where
  "KeyCopy9 k = (if length k \<le> 9 then k @ replicate (9 - length k) CHR 0x00 else replicate 9 CHR 0x00)"

subsection \<open>What the library promises\<close>

locale badger_laws =
  fixes B :: "('db, 't) badger"
    and content :: "'db \<Rightarrow> bytes \<Rightarrow> bytes option"
    and tview :: "'t \<Rightarrow> bytes \<Rightarrow> bytes option"
    and tbase :: "'t \<Rightarrow> bytes \<Rightarrow> bytes option"
  assumes begin_view: "tview (NewTransaction B db) = content db"
    and begin_base: "tbase (NewTransaction B db) = content db"
    and get_ok: "txnGet B t k = Inr (Inr v) \<Longrightarrow> tview t k = Some v"
    and get_missing: "txnGet B t k = Inl BadgerKeyNotFound \<Longrightarrow> tview t k = None"
    and set_ok: "txnSet B t k v = (None, t') \<Longrightarrow> tview t' = (tview t)(k \<mapsto> v) \<and> tbase t' = tbase t"
    and set_err: "txnSet B t k v = (Some e, t') \<Longrightarrow> tview t' = tview t \<and> tbase t' = tbase t"
    and delete_ok: "txnDelete B t k = (None, t') \<Longrightarrow> tview t' = (tview t)(k := None) \<and> tbase t' = tbase t"
    and delete_err: "txnDelete B t k = (Some e, t') \<Longrightarrow> tview t' = tview t \<and> tbase t' = tbase t"
    and commit_ok: "tbase t = content db \<Longrightarrow> txnCommit B db t = (None, db') \<Longrightarrow> content db' = tview t"
    and commit_err: "txnCommit B db t = (Some e, db') \<Longrightarrow> content db' = content db"
    and finite_view: "finite (dom (tview t))"
    and seek_up: "txnSeek B t False k = sorted_list_of_set {x \<in> dom (tview t). k \<le> x}"
    and seek_down: "txnSeek B t True k = rev (sorted_list_of_set {x \<in> dom (tview t). x \<le> k})"
begin

lemma finite_content: "finite (dom (content db))"
  using finite_view [of "NewTransaction B db"] by (simp add: begin_view)

text \<open>An update either fails and leaves the database as it was, or installs what its transaction saw last.\<close>

lemma Update_cases:
  assumes "Update B db f = (err, db')"
    and "\<And>t e t'. tbase t = content db \<Longrightarrow> tview t = content db \<Longrightarrow> f t = (e, t') \<Longrightarrow> tbase t' = content db"
  shows "if err = None then \<exists>t'. f (NewTransaction B db) = (None, t') \<and> content db' = tview t'
    else content db' = content db"
proof -
  obtain e t' where f: "f (NewTransaction B db) = (e, t')" by fastforce
  then have base: "tbase t' = content db" using assms(2) begin_view begin_base by blast
  show ?thesis
    using assms(1) f commit_ok [OF base] commit_err
    by (auto simp: Update_def split: option.splits)
qed

lemma View_ok: "View B db f = Inr x \<Longrightarrow> f (NewTransaction B db) = Inr x"
  by (simp add: View_def split: option.splits)

lemma seek_up_begin: "txnSeek B (NewTransaction B db) False k = sorted_list_of_set {x \<in> dom (content db). k \<le> x}"
  by (simp add: seek_up begin_view)

lemma seek_down_begin: "txnSeek B (NewTransaction B db) True k = rev (sorted_list_of_set {x \<in> dom (content db). x \<le> k})"
  by (simp add: seek_down begin_view)

end

text \<open>
  The library without I/O faults: only a transaction that has grown too big fails, and a new one is not too big. This is
  the library in ordinary use. It also refuses empty keys, keys with the prefix it reserves for itself, and keys and values
  beyond its size limits; such arguments are outside what is stated under \<open>badger_healthy\<close>. The keys the sources write
  all have a prefix of their own, except the bare keys of \<open>LockKeys\<close>, for which nothing here says that the write succeeds.
\<close>

locale badger_healthy = badger_laws +
  assumes open_db: "dbErr B db = None"
    and get_total: "txnGet B t k = (case tview t k of None \<Rightarrow> Inl BadgerKeyNotFound | Some v \<Rightarrow> Inr (Inr v))"
    and set_total: "fst (txnSet B t k v) \<in> {None, Some ErrTxnTooBig}"
    and delete_total: "fst (txnDelete B t k) \<in> {None, Some ErrTxnTooBig}"
    and fresh_set: "fst (txnSet B (NewTransaction B db) k v) = None"
    and fresh_delete: "fst (txnDelete B (NewTransaction B db) k) = None"
    and commit_total: "fst (txnCommit B db t) = None"

subsection \<open>An in-memory database\<close>

record memdb =
  entries :: "(bytes \<times> bytes) list"
  txnLimit :: nat

record memtxn =
  mBase :: "(bytes \<times> bytes) list"
  mCur :: "(bytes \<times> bytes) list"
  mWrites :: nat
  mLimit :: nat

definition mem_write :: "((bytes \<times> bytes) list \<Rightarrow> (bytes \<times> bytes) list) \<Rightarrow> memtxn \<Rightarrow> error option \<times> memtxn" where
  "mem_write f t =
     (if mLimit t < mWrites t then (Some ErrTxnTooBig, t)
      else (None, t\<lparr>mCur := f (mCur t), mWrites := Suc (mWrites t)\<rparr>))"

definition mem_badger :: "(memdb, memtxn) badger" where
  "mem_badger = \<lparr>
     dbErr = (\<lambda>db. None),
     NewTransaction = (\<lambda>db. \<lparr>mBase = entries db, mCur = entries db, mWrites = 0, mLimit = txnLimit db\<rparr>),
     txnGet = (\<lambda>t k. case map_of (mCur t) k of None \<Rightarrow> Inl BadgerKeyNotFound | Some v \<Rightarrow> Inr (Inr v)),
     txnSet = (\<lambda>t k v. mem_write (AList.update k v) t),
     txnDelete = (\<lambda>t k. mem_write (AList.delete k) t),
     txnSeek = (\<lambda>t reverse k.
       let ks = sort (remdups (map fst (mCur t)))
       in if reverse then rev (filter (\<lambda>x. x \<le> k) ks) else filter (\<lambda>x. k \<le> x) ks),
     txnCommit = (\<lambda>db t. (None, db\<lparr>entries := mCur t\<rparr>))\<rparr>"

definition mem_content :: "memdb \<Rightarrow> bytes \<Rightarrow> bytes option" where "mem_content db = map_of (entries db)"
definition mem_view :: "memtxn \<Rightarrow> bytes \<Rightarrow> bytes option" where "mem_view t = map_of (mCur t)"
definition mem_base :: "memtxn \<Rightarrow> bytes \<Rightarrow> bytes option" where "mem_base t = map_of (mBase t)"

lemma sort_filter_set: "filter P (sort (remdups xs)) = sorted_list_of_set {x \<in> set xs. P x}"
proof -
  have "sorted_list_of_set {x \<in> set xs. P x} = sorted_list_of_set (set (filter P xs))" by simp
  also have "\<dots> = sort (remdups (filter P xs))" by (rule sorted_list_of_set_sort_remdups)
  also have "\<dots> = filter P (sort (remdups xs))" by (simp add: remdups_filter filter_sort)
  finally show ?thesis by simp
qed

lemmas mem_defs = mem_badger_def mem_content_def mem_view_def mem_base_def mem_write_def

interpretation mem: badger_healthy mem_badger mem_content mem_view mem_base
proof unfold_locales
  fix t :: memtxn and k :: bytes
  have dom: "dom (map_of (mCur t)) = set (map fst (mCur t))" by (simp add: dom_map_of_conv_image_fst)
  show "txnSeek mem_badger t False k = sorted_list_of_set {x \<in> dom (mem_view t). k \<le> x}"
    "txnSeek mem_badger t True k = rev (sorted_list_of_set {x \<in> dom (mem_view t). x \<le> k})"
    unfolding mem_view_def dom sort_filter_set [symmetric] by (simp_all add: mem_badger_def)
qed (auto simp: mem_defs update_conv' delete_conv' finite_dom_map_of split: if_splits option.splits)

end
