(* ===== verification/Commands.thy ===== *)
theory Commands
  imports Wire
begin

text \<open>
  \<^verbatim>\<open>protocol/commands.go\<close>: reading a command out of a message (\<open>Cmd\<close>), the key extractors, the
  table of command specifications, \<open>Keys\<close> and \<open>IsWrite\<close>.

  Payloads are read through shared readers, so an argument that has been read once is empty afterwards.
\<close>

record Command =
  cmdName :: string
  cmdArgs :: seq
  cmdDatabase :: string
  cmdMessage :: message

definition commandsWithoutKey :: "string list" where
  "commandsWithoutKey = [''FLUSHALL'', ''FLUSHDB'', ''SELECT'', ''FUNCTION'', ''CLIENT'', ''CLUSTER'', ''ACL'',
     ''COMMAND'', ''CONFIG'', ''PING'']"

definition commandsWithSubOp :: "string list" where
  "commandsWithSubOp = [''BITOP'', ''FUNCTION'', ''SCRIPT'', ''CLIENT'', ''CLUSTER'', ''ACL'', ''COMMAND'', ''CONFIG'']"

text \<open>
  \<open>strings.ToUpper\<close>: letters of an ASCII string are mapped one by one; the Unicode tables used for
  other strings are the parameter \<open>unicode\<close>.
\<close>

definition ascii_upper :: "char \<Rightarrow> char" where
  "ascii_upper c =
     (let n = of_char c :: nat in if 97 \<le> n \<and> n \<le> 122 then char_of (n - 32) else c)"

definition ToUpper :: "(string \<Rightarrow> string) \<Rightarrow> string \<Rightarrow> string" where
  "ToUpper unicode s =
     (if list_all (\<lambda>c. of_char c < (128::nat)) s then map ascii_upper s else unicode s)"

subsection \<open>Iterating over a sequence\<close>

text \<open>What ranging over a sequence field hands to the loop body. A nil iterator panics when it is called.\<close>

definition seq_items :: "seq \<Rightarrow> heap \<Rightarrow> ((message \<times> error option) list \<times> heap) go" where
  "seq_items sq h =
     (case sq of
        NilSeq \<Rightarrow> Panic ''nil pointer dereference''
      | SliceSeq ms \<Rightarrow> Ret (map (\<lambda>m. (m, None)) ms, h)
      | IterateSeq r \<Rightarrow> Ret (Iterate r h))"

subsection \<open>Cmd\<close>

text \<open>
  The loop of \<open>Cmd\<close>. The counter is incremented before it is looked at, so it is at least 1 in the body;
  the branch for \<open>i == 0\<close> is translated all the same.
\<close>

fun Cmd_loop :: "(string \<Rightarrow> string) \<Rightarrow> message \<Rightarrow> (message \<times> error option) list \<Rightarrow> int \<Rightarrow> Command \<Rightarrow> heap \<Rightarrow>
    ((error + Command) \<times> heap) go" where
  "Cmd_loop up msg [] i cmd h = Ret (Inr cmd, h)"
| "Cmd_loop up msg ((arg, err) # xs) i0 cmd h =
     (let i = i0 + 1 in
      case err of
        Some e \<Rightarrow> Ret (Inl e, h)
      | None \<Rightarrow>
          if msgKind arg \<noteq> kBulkString
          then Ret (Inl (Errorf ''%w; expected Bulk for %d-th element of message, string got %s'' [ErrInvalidCommand]), h)
          else go_bind (ReadAll arg h) (\<lambda>((all, err1), h1).
            case err1 of
              Some e \<Rightarrow> Ret (Inl e, h1)
            | None \<Rightarrow>
                let name0 = ToUpper up all in
                if i = 0 \<and> name0 = [] then
                  Ret (Inl (Errorf ''%w; expected non-empty string for command name'' [ErrInvalidCommand]), h1)
                else if i = 0 \<and> name0 \<in> set commandsWithoutKey \<and> msgRunLength msg > 2 then
                  Ret (Inl (Errorf ''%w; expected at least two elements for command %s got %d'' [ErrInvalidCommand]), h1)
                else
                  let cmd1 = (if i = 0 then cmd\<lparr>cmdName := name0, cmdArgs := msgSeq msg\<rparr> else cmd) in
                  if cmdName cmd1 \<notin> set commandsWithSubOp then Ret (Inr (cmd1\<lparr>cmdArgs := msgSeq msg\<rparr>), h1)
                  else if i = 1 then
                    if msgRunLength msg < 3 then
                      Ret (Inl (Errorf ''%w; expected at least three elements for command %s got %d'' [ErrInvalidCommand]), h1)
                    else go_bind (ReadAll arg h1) (\<lambda>((readAll, err2), h2).
                      case err2 of
                        Some e \<Rightarrow> Ret (Inl e, h2)
                      | None \<Rightarrow> Cmd_loop up msg xs i
                          (cmd1\<lparr>cmdName := cmdName cmd1 @ '' '' @ ToUpper up readAll, cmdArgs := msgSeq msg\<rparr>) h2)
                  else Cmd_loop up msg xs i cmd1 h1))"

definition Cmd :: "(string \<Rightarrow> string) \<Rightarrow> message \<Rightarrow> heap \<Rightarrow> ((error + Command) \<times> heap) go" where
  "Cmd up msg h =
     (let cmd = \<lparr>cmdName = [], cmdArgs = NilSeq, cmdDatabase = [], cmdMessage = msg\<rparr> in
      if msgKind msg \<noteq> kArray
      then Ret (Inl (Errorf ''%w; expected array got %s'' [ErrInvalidCommand]), h)
      else go_bind (seq_items (msgSeq msg) h) (\<lambda>(items, h1). Cmd_loop up msg items 0 cmd h1))"

subsection \<open>Key extractors\<close>

type_synonym keys_result = "((string list \<times> error option) \<times> heap) go"

text \<open>
  The callback of \<open>firstN\<close> reads one payload per message and goes on while at most \<open>n\<close> are collected.
  It assigns to its own parameter \<open>err\<close>, so the error the extractor returns stays nil.
\<close>

fun firstN_loop :: "int \<Rightarrow> message list \<Rightarrow> string list \<Rightarrow> heap \<Rightarrow> (string list \<times> heap) go" where
  "firstN_loop n [] keys h = Ret (keys, h)"
| "firstN_loop n (m # ms) keys h =
     go_bind (ReadAll m h) (\<lambda>((all, err), h1).
       case err of
         Some e \<Rightarrow> Ret (keys, h1)
       | None \<Rightarrow>
           let keys' = keys @ [all] in
           if int (length keys') \<le> n then firstN_loop n ms keys' h1 else Ret (keys', h1))"

definition firstN :: "int \<Rightarrow> seq \<Rightarrow> int \<Rightarrow> heap \<Rightarrow> keys_result" where
  "firstN n args sz h =
     (if sz < n then
        Ret (([], Some (Errorf ''%w; expected at least %d argument for firstArgKey'' [ErrInvalidCommand])), h)
      else go_bind (seq_items args h) (\<lambda>(items, h1).
        go_bind (firstN_loop n (map fst items) [] h1) (\<lambda>(keys, h2). Ret ((keys, None), h2))))"

definition firstArgKeyFunc :: "seq \<Rightarrow> int \<Rightarrow> heap \<Rightarrow> keys_result" where
  "firstArgKeyFunc = firstN 1"

text \<open>
  \<open>oddIndices\<close>: the callback reads a payload, does not keep it, and lacks its final return statement;
  what it would return is the parameter \<open>go_on\<close>.
\<close>

fun oddIndices_loop :: "bool \<Rightarrow> message list \<Rightarrow> heap \<Rightarrow> heap go" where
  "oddIndices_loop go_on [] h = Ret h"
| "oddIndices_loop go_on (m # ms) h =
     go_bind (ReadAll m h) (\<lambda>((all, err), h1).
       case err of Some e \<Rightarrow> Ret h1 | None \<Rightarrow> if go_on then oddIndices_loop go_on ms h1 else Ret h1)"

definition oddIndices :: "bool \<Rightarrow> seq \<Rightarrow> int \<Rightarrow> heap \<Rightarrow> keys_result" where
  "oddIndices go_on args sz h =
     (if sz mod 2 = 1 \<and> 0 \<le> sz then
        Ret (([], Some (Errorf ''%w: expected an even number of arguments'' [ErrInvalidCommand])), h)
      else go_bind (seq_items args h) (\<lambda>(items, h1).
        go_bind (oddIndices_loop go_on (map fst items) h1) (\<lambda>h2. Ret (([], None), h2))))"

fun allArgs_loop :: "message list \<Rightarrow> string list \<Rightarrow> heap \<Rightarrow> (string list \<times> heap) go" where
  "allArgs_loop [] keys h = Ret (keys, h)"
| "allArgs_loop (m # ms) keys h =
     go_bind (ReadAll m h) (\<lambda>((all, err), h1).
       case err of Some e \<Rightarrow> Ret (keys, h1) | None \<Rightarrow> allArgs_loop ms (keys @ [all]) h1)"

definition allArgs :: "seq \<Rightarrow> int \<Rightarrow> heap \<Rightarrow> keys_result" where
  "allArgs args sz h =
     go_bind (seq_items args h) (\<lambda>(items, h1).
       go_bind (allArgs_loop (map fst items) [] h1) (\<lambda>(keys, h2). Ret ((keys, None), h2)))"

definition noKeysFunc :: "seq \<Rightarrow> int \<Rightarrow> heap \<Rightarrow> keys_result" where
  "noKeysFunc args sz h = Ret (([], None), h)"

text \<open>The entry for \<open>LCS\<close> takes a slice of strings, not a sequence of messages like the others.\<close>

definition lcsKeys :: "string list \<Rightarrow> string list \<times> error option" where
  "lcsKeys args =
     (if length args < 2 then ([], Some (Errorf ''%w: expected at least two arguments'' [ErrInvalidCommand]))
      else (take 2 args, None))"

subsection \<open>Specifications\<close>

datatype KeysFunc =
    SeqKeys "seq \<Rightarrow> int \<Rightarrow> heap \<Rightarrow> keys_result"
  | SliceKeys "string list \<Rightarrow> string list \<times> error option"

record CommandSpecification =
  specKeys :: KeysFunc
  specCategories :: "string list"

abbreviation spec :: "(seq \<Rightarrow> int \<Rightarrow> heap \<Rightarrow> keys_result) \<Rightarrow> string list \<Rightarrow> CommandSpecification" where
  "spec f cs \<equiv> \<lparr>specKeys = SeqKeys f, specCategories = cs\<rparr>"

definition cmdSpec :: "bool \<Rightarrow> (string \<times> CommandSpecification) list" where
  "cmdSpec go_on =
    [(''SELECT'', spec noKeysFunc [''fast'', ''connection'']),
     (''UNLINK'', spec allArgs [''keyspace'', ''write'', ''fast'']),
     (''FLUSHALL'', spec noKeysFunc [''keyspace'', ''write'', ''slow'', ''dangerous'']),
     (''APPEND'', spec firstArgKeyFunc [''write'', ''string'', ''fast'']),
     (''DECR'', spec firstArgKeyFunc [''write'', ''string'', ''fast'']),
     (''DECRBY'', spec firstArgKeyFunc [''write'', ''string'', ''fast'']),
     (''GET'', spec firstArgKeyFunc [''read'', ''string'', ''fast'']),
     (''GETDEL'', spec firstArgKeyFunc [''write'', ''string'', ''fast'']),
     (''GETEX'', spec firstArgKeyFunc [''write'', ''string'', ''fast'']),
     (''GETRANGE'', spec firstArgKeyFunc [''read'', ''string'', ''slow'']),
     (''GETSET'', spec firstArgKeyFunc [''write'', ''string'', ''fast'']),
     (''INCR'', spec firstArgKeyFunc [''write'', ''string'', ''fast'']),
     (''INCRBY'', spec firstArgKeyFunc [''write'', ''string'', ''fast'']),
     (''INCRBYFLOAT'', spec firstArgKeyFunc [''write'', ''string'', ''fast'']),
     (''LCS'', \<lparr>specKeys = SliceKeys lcsKeys, specCategories = [''read'', ''string'', ''slow'']\<rparr>),
     (''MGET'', spec allArgs [''read'', ''string'', ''fast'']),
     (''MSET'', spec (oddIndices go_on) [''write'', ''string'', ''fast'']),
     (''MSETNX'', spec (oddIndices go_on) [''write'', ''string'', ''fast'']),
     (''SET'', spec firstArgKeyFunc [''write'', ''string'', ''fast'']),
     (''SETRANGE'', spec firstArgKeyFunc [''write'', ''string'', ''fast'']),
     (''STRLEN'', spec firstArgKeyFunc [''read'', ''string'', ''fast'']),
     (''SADD'', spec firstArgKeyFunc [''write'', ''set'', ''fast'']),
     (''SREM'', spec firstArgKeyFunc [''write'', ''set'', ''fast'']),
     (''ZADD'', spec firstArgKeyFunc [''write'', ''sortedset'', ''fast''])]"

text \<open>
  \<open>Keys\<close> calls the extractor of the table with the command's arguments and the run length of its message.
  The slice extractor of \<open>LCS\<close> cannot be called with a sequence; the model makes that a failure of its own.
\<close>

definition Keys :: "bool \<Rightarrow> Command \<Rightarrow> heap \<Rightarrow> keys_result" where
  "Keys go_on cmd h =
     (case map_of (cmdSpec go_on) (cmdName cmd) of
        None \<Rightarrow> Ret (([], Some (Errorf ''%w: %s %w'' [ErrInvalidCommand, ErrNotImplemented])), h)
      | Some sp \<Rightarrow>
          (case specKeys sp of
             SeqKeys f \<Rightarrow> f (cmdArgs cmd) (msgRunLength (cmdMessage cmd)) h
           | SliceKeys f \<Rightarrow> Panic ''argument type mismatch''))"

definition IsWrite :: "Command \<Rightarrow> bool" where
  "IsWrite cmd =
     (case map_of (cmdSpec False) (cmdName cmd) of
        None \<Rightarrow> False
      | Some sp \<Rightarrow> ''write'' \<in> set (specCategories sp))"

subsection \<open>Reading arguments\<close>

lemma ReadFull_loop_frame:
  "objs h r = Src s \<Longrightarrow> ReadFull_loop r k acc h = (x, h') \<Longrightarrow>
   (\<exists>s'. objs h' r = Src s') \<and> (\<forall>i. i \<noteq> r \<longrightarrow> objs h' i = objs h i)"
proof (induction r k acc h arbitrary: s rule: ReadFull_loop.induct)
  case (1 r k acc h)
  show ?case
  proof (cases "k \<le> length acc")
    case True
    with 1 show ?thesis by (simp add: ReadFull_loop.simps [of r k acc])
  next
    case False
    obtain p e h1 where p: "hread r (k - length acc) h = ((p, e), h1)" by (metis surj_pair)
    note fr = hread_Src_frame [OF "1.prems"(1) p]
    show ?thesis
    proof (cases e)
      case None
      with p False "1.prems"(2) have "ReadFull_loop r k (acc @ p) h1 = (x, h')"
        by (simp add: ReadFull_loop.simps [of r k acc])
      with "1.IH" [OF False p [symmetric] refl None] fr show ?thesis by metis
    next
      case (Some err)
      with p False "1.prems"(2) fr show ?thesis by (auto simp: ReadFull_loop.simps [of r k acc])
    qed
  qed
qed

inductive_cases repr_bulkE: "repr h (RBulk s) m a b"
inductive_cases reprs_ConsE: "reprs h (v # vs) ms a b"
inductive_cases reprs_NilE: "reprs h [] ms a b"

text \<open>Reading a bulk argument returns its text the first time and nothing after that.\<close>

lemma ReadAll_bulk:
  assumes "repr h (RBulk s) m a b"
  shows "\<exists>h'. ReadAll m h = Ret ((s, None), h') \<and> same_outside a b h h' \<and>
    (\<exists>h''. ReadAll m h' = Ret (([], None), h'') \<and> same_outside a b h h'')"
proof -
  from assms obtain src where src: "objs h a = Src src" "s = rest src" "m = BulkString a (int (length s))" "b = Suc a"
    by (auto elim!: repr_bulkE)
  show ?thesis
  proof (cases "s = []")
    case True
    with src show ?thesis by (simp add: ReadAll_def BulkString_def)
  next
    case False
    obtain h' where h': "ReadFull a (length s) h = ((s, None), h')" "hleft a h' = []"
      using ReadFull_ok [of "length s" a h] src by (auto simp: heap_view_Src)
    obtain s' where fr: "objs h' a = Src s'" "\<forall>i. i \<noteq> a \<longrightarrow> objs h' i = objs h i"
      using ReadFull_loop_frame [OF src(1) h'(1) [unfolded ReadFull_def]] by blast
    obtain h'' e where h'': "ReadFull a (length s) h' = (([], Some e), h'')"
      using ReadFull_short [of a h' "length s"] h'(2) False by auto
    have "\<forall>i. i \<noteq> a \<longrightarrow> objs h'' i = objs h' i"
      using ReadFull_loop_frame [OF fr(1) h''(1) [unfolded ReadFull_def]] by blast
    with h' h'' fr(2) src False show ?thesis by (auto simp: ReadAll_def BulkString_def same_outside_def)
  qed
qed

lemma reprs_frame:
  "reprs h vs ms b c \<Longrightarrow> same_outside a b h h' \<Longrightarrow> reprs h' vs ms b c"
  using repr_heap_both(2) [of h vs ms b c h'] by (auto simp: same_inside_def same_outside_def)

lemma reprs_bulk_Cons:
  assumes "reprs h (map RBulk (s # ss)) ms a c"
  obtains m ms' h1 b where "ms = m # ms'" "msgKind m = kBulkString" "ReadAll m h = Ret ((s, None), h1)"
    "reprs h1 (map RBulk ss) ms' b c" "repr h (RBulk s) m a b" "same_outside a b h h1"
proof -
  from assms obtain m ms' b where m: "ms = m # ms'" "repr h (RBulk s) m a b" "reprs h (map RBulk ss) ms' b c"
    by (auto elim!: reprs_ConsE)
  moreover obtain h1 where "ReadAll m h = Ret ((s, None), h1)" "same_outside a b h h1" using ReadAll_bulk [OF m(2)] by blast
  moreover have "msgKind m = kBulkString" using m(2) by (auto elim!: repr_bulkE simp: BulkString_def)
  ultimately show thesis using that reprs_frame by blast
qed

lemma firstN_loop_bulks:
  "reprs h (map RBulk ss) ms a b \<Longrightarrow> int (length keys) \<le> n \<Longrightarrow>
   \<exists>h'. firstN_loop n ms keys h = Ret (keys @ take (nat n + 1 - length keys) ss, h')"
proof (induction ss arbitrary: h ms a keys)
  case Nil
  then show ?case by (auto elim!: reprs_NilE)
next
  case (Cons s ss)
  obtain m ms' h1 b' where m: "ms = m # ms'" "msgKind m = kBulkString" "ReadAll m h = Ret ((s, None), h1)"
      "reprs h1 (map RBulk ss) ms' b' b" "repr h (RBulk s) m a b'" "same_outside a b' h h1"
    by (rule reprs_bulk_Cons [OF Cons.prems(1)])
  have k: "nat n + 1 - length keys = Suc (nat n - length keys)" using Cons.prems(2) by auto
  show ?case
  proof (cases "int (length (keys @ [s])) \<le> n")
    case True
    obtain h' where "firstN_loop n ms' (keys @ [s]) h1 = Ret ((keys @ [s]) @ take (nat n + 1 - length (keys @ [s])) ss, h')"
      using Cons.IH [OF m(4) True] by blast
    with True m(3) k show ?thesis unfolding m(1) by simp
  next
    case False
    then have "nat n - length keys = 0" using Cons.prems(2) by auto
    with False m(3) k show ?thesis unfolding m(1) by simp
  qed
qed

lemma allArgs_loop_bulks:
  "reprs h (map RBulk ss) ms a b \<Longrightarrow> \<exists>h'. allArgs_loop ms keys h = Ret (keys @ ss, h')"
proof (induction ss arbitrary: h ms a keys)
  case Nil
  then show ?case by (auto elim!: reprs_NilE)
next
  case (Cons s ss)
  obtain m ms' h1 b' where m: "ms = m # ms'" "msgKind m = kBulkString" "ReadAll m h = Ret ((s, None), h1)"
      "reprs h1 (map RBulk ss) ms' b' b" "repr h (RBulk s) m a b'" "same_outside a b' h h1"
    by (rule reprs_bulk_Cons [OF Cons.prems])
  with Cons.IH [OF m(4), of "keys @ [s]"] show ?case by simp
qed

lemma oddIndices_loop_bulks:
  "reprs h (map RBulk ss) ms a b \<Longrightarrow> \<exists>h'. oddIndices_loop go_on ms h = Ret h'"
proof (induction ss arbitrary: h ms a)
  case Nil
  then show ?case by (auto elim!: reprs_NilE)
next
  case (Cons s ss)
  obtain m ms' h1 b' where m: "ms = m # ms'" "msgKind m = kBulkString" "ReadAll m h = Ret ((s, None), h1)"
      "reprs h1 (map RBulk ss) ms' b' b" "repr h (RBulk s) m a b'" "same_outside a b' h h1"
    by (rule reprs_bulk_Cons [OF Cons.prems])
  with Cons.IH [OF m(4)] show ?case by (cases go_on) simp_all
qed

subsection \<open>What Cmd returns\<close>

abbreviation fresh_cmd :: "message \<Rightarrow> Command" where
  "fresh_cmd msg \<equiv> \<lparr>cmdName = [], cmdArgs = NilSeq, cmdDatabase = [], cmdMessage = msg\<rparr>"

lemma empty_name_no_subop: "[] \<notin> set commandsWithSubOp"
  by (simp add: commandsWithSubOp_def)

lemma Cmd_loop_first:
  "Cmd_loop up msg ((arg, err) # xs) 0 (fresh_cmd msg) h =
     (case err of
        Some e \<Rightarrow> Ret (Inl e, h)
      | None \<Rightarrow>
          if msgKind arg \<noteq> kBulkString
          then Ret (Inl (Errorf ''%w; expected Bulk for %d-th element of message, string got %s'' [ErrInvalidCommand]), h)
          else go_bind (ReadAll arg h) (\<lambda>((all, err1), h1).
            case err1 of Some e \<Rightarrow> Ret (Inl e, h1)
            | None \<Rightarrow> Ret (Inr ((fresh_cmd msg)\<lparr>cmdArgs := msgSeq msg\<rparr>), h1)))"
  by (simp add: empty_name_no_subop split: option.split cong: option.case_cong)

lemma Cmd_name_empty:
  assumes "Cmd up msg h = Ret (Inr cmd, h')"
  shows "cmdName cmd = []"
proof -
  obtain items h1 where "Cmd_loop up msg items 0 (fresh_cmd msg) h1 = Ret (Inr cmd, h')"
    using assms by (auto simp: Cmd_def Let_def split: if_splits)
  then show ?thesis
  proof (cases items)
    case (Cons x xs)
    obtain arg err where "x = (arg, err)" by fastforce
    with Cons \<open>Cmd_loop up msg items 0 (fresh_cmd msg) h1 = Ret (Inr cmd, h')\<close> show ?thesis
      unfolding Cmd_loop_first by (auto simp: Cmd_loop_first go_bind_Ret_iff simp del: Cmd_loop.simps split: option.splits if_splits)
  qed auto
qed

lemma cmdSpec_no_empty: "map_of (cmdSpec go_on) [] = None"
  by (simp add: cmdSpec_def)

text \<open>
  C23. No command that \<open>Cmd\<close> accepts has a name: whatever the message, the name stays empty, so its keys are never
  known (the error wraps both \<open>ErrInvalidCommand\<close> and \<open>ErrNotImplemented\<close>) and it never counts as a write.
\<close>

theorem cmd_has_no_name:
  assumes "Cmd up msg h = Ret (Inr cmd, h')"
  shows "cmdName cmd = [] \<and> \<not> IsWrite cmd \<and>
    (\<exists>err. Keys go_on cmd h2 = Ret (([], Some err), h2) \<and> errors_Is err ErrInvalidCommand \<and> errors_Is err ErrNotImplemented)"
  using Cmd_name_empty [OF assms] by (simp add: Keys_def IsWrite_def cmdSpec_no_empty)

theorem cmd_has_no_name_witness:
  "\<exists>cmd h'. Cmd id (Array [BulkString 0 0]) empty_heap = Ret (Inr cmd, h') \<and> cmdName cmd = [] \<and> \<not> IsWrite cmd"
proof -
  have r: "Cmd id (Array [BulkString 0 0]) empty_heap =
      Ret (Inr ((fresh_cmd (Array [BulkString 0 0]))\<lparr>cmdArgs := SliceSeq [BulkString 0 0]\<rparr>), empty_heap)"
    by (simp add: Cmd_def Array_def BulkString_def seq_items_def Let_def ReadAll_def commandsWithSubOp_def)
  from cmd_has_no_name [OF r] r show ?thesis by blast
qed

text \<open>
  \<open>Cmd\<close> looks at the first element only. A message that is not an array, or whose first element is not a bulk
  string, is refused with \<open>ErrInvalidCommand\<close> and nothing is read; with a bulk string of non-negative length
  first, the command is accepted whatever the other elements are.
\<close>

theorem cmd_checks_first_only:
  assumes "msgSeq msg = SliceSeq (arg # args)" "msgReader arg = Some r" "0 \<le> msgRunLength arg"
  shows "if msgKind msg = kArray \<and> msgKind arg = kBulkString
    then \<exists>cmd h'. Cmd up msg h = Ret (Inr cmd, h') \<and> cmdMessage cmd = msg
    else \<exists>e. Cmd up msg h = Ret (Inl e, h) \<and> errors_Is e ErrInvalidCommand"
proof -
  obtain s h1 where "ReadAll arg h = Ret ((s, None), h1)"
    using ReadAll_full [OF assms(2,3), of h] ReadAll_short [OF assms(2), of h] by fastforce
  with assms(1) show ?thesis
    by (auto simp: Cmd_def Let_def seq_items_def Cmd_loop_first simp del: Cmd_loop.simps)
qed

theorem cmd_checks_first_only_witness:
  "(\<exists>cmd h'. Cmd id (Array [BulkString 0 3, Int_msg 7]) empty_heap = Ret (Inr cmd, h') \<and>
     cmdMessage cmd = Array [BulkString 0 3, Int_msg 7]) \<and>
   (\<exists>e. Cmd id (Set [BulkString 0 3]) empty_heap = Ret (Inl e, empty_heap) \<and> errors_Is e ErrInvalidCommand)"
  using cmd_checks_first_only [of "Array [BulkString 0 3, Int_msg 7]" "BulkString 0 3" "[Int_msg 7]" 0 id empty_heap]
    cmd_checks_first_only [of "Set [BulkString 0 3]" "BulkString 0 3" "[]" 0 id empty_heap]
  by (simp add: Array_def Set_def BulkString_def kind_defs)

text \<open>
  The arguments of an accepted command are its whole sequence: asked for all of them, the name comes first, as
  an empty text since \<open>Cmd\<close> has read its payload, and then the arguments.
\<close>

theorem cmd_args_include_name:
  assumes "NewOutgoingCommand (name # args) h = (msg, h0)"
  shows "\<exists>cmd h1 h2. Cmd up msg h0 = Ret (Inr cmd, h1) \<and> cmdArgs cmd = msgSeq msg \<and> cmdMessage cmd = msg \<and>
    allArgs (cmdArgs cmd) sz h1 = Ret (([] # args, None), h2)"
proof -
  from assms obtain ms where ms: "NewBulkStrings (name # args) h = (ms, h0)" "msg = Array ms"
    by (auto simp: NewOutgoingCommand_def NewArray_def simp del: NewBulkStrings.simps split: prod.splits)
  have reprs: "reprs h0 (map RBulk (name # args)) ms (brk h) (brk h0)" using NewBulkStrings_repr [OF ms(1)] by blast
  obtain m ms' h1 b where m: "ms = m # ms'" "msgKind m = kBulkString" "ReadAll m h0 = Ret ((name, None), h1)"
      "reprs h1 (map RBulk args) ms' b (brk h0)" "repr h0 (RBulk name) m (brk h) b" "same_outside (brk h) b h0 h1"
    by (rule reprs_bulk_Cons [OF reprs])
  have cmd: "Cmd up msg h0 = Ret (Inr ((fresh_cmd msg)\<lparr>cmdArgs := msgSeq msg\<rparr>), h1)"
    using m(2,3) unfolding ms(2) m(1) by (simp add: Cmd_def Array_def seq_items_def Cmd_loop_first del: Cmd_loop.simps)
  obtain h2 where again: "ReadAll m h1 = Ret (([], None), h2)" "same_outside (brk h) b h0 h2"
    using ReadAll_bulk [OF m(5)] m(3) by auto
  have "reprs h2 (map RBulk args) ms' b (brk h0)"
    using reprs_frame [OF m(4), of "brk h" h2] m(6) again(2) by (simp add: same_outside_def)
  from allArgs_loop_bulks [OF this, of "[[]]"] obtain h3 where "allArgs_loop ms' [[]] h2 = Ret ([] # args, h3)" by auto
  with again(1) have "allArgs (msgSeq msg) sz h1 = Ret (([] # args, None), h3)"
    unfolding ms(2) m(1) by (simp add: allArgs_def seq_items_def Array_def o_def)
  with cmd show ?thesis by simp
qed

theorem cmd_args_include_name_witness:
  "\<exists>cmd h1 h2. Cmd id (fst (NewOutgoingCommand [''DEL'', ''a'', ''b''] empty_heap))
       (snd (NewOutgoingCommand [''DEL'', ''a'', ''b''] empty_heap)) = Ret (Inr cmd, h1) \<and>
     allArgs (cmdArgs cmd) 3 h1 = Ret (([[], ''a'', ''b''], None), h2)"
  using cmd_args_include_name [of "''DEL''" "[''a'', ''b'']" empty_heap, OF prod.collapse [symmetric], of id 3] by blast

text \<open>
  C24. \<open>firstN(n)\<close> returns one argument too many: of at least \<open>n\<close> announced arguments it collects the first
  \<open>n + 1\<close>, so the extractor for single-key commands also takes the value for a key; with fewer announced it fails
  with \<open>ErrInvalidCommand\<close>.
\<close>

theorem firstN_one_too_many:
  assumes "reprs h (map RBulk ss) ms a b" "0 \<le> n"
  shows "\<exists>h' err. firstN n (SliceSeq ms) sz h = Ret ((if sz < n then [] else take (nat n + 1) ss, err), h') \<and>
    (if sz < n then \<exists>e. err = Some e \<and> errors_Is e ErrInvalidCommand else err = None)"
  using firstN_loop_bulks [OF assms(1), of "[]" n] assms(2)
  by (auto simp: firstN_def seq_items_def o_def)

theorem firstN_one_too_many_witness:
  "\<exists>ms h h'. NewBulkStrings [''k'', ''v'', ''EX''] empty_heap = (ms, h) \<and>
     firstArgKeyFunc (SliceSeq ms) 3 h = Ret (([''k'', ''v''], None), h')"
proof -
  obtain ms h where ms: "NewBulkStrings [''k'', ''v'', ''EX''] empty_heap = (ms, h)" by fastforce
  from NewBulkStrings_repr [OF ms] have r: "reprs h (map RBulk [''k'', ''v'', ''EX'']) ms 0 (brk h)" by simp
  from firstN_one_too_many [OF r, of 1 3] ms show ?thesis by (auto simp: firstArgKeyFunc_def)
qed

text \<open>
  \<open>oddIndices\<close>, the extractor of \<open>MSET\<close> and \<open>MSETNX\<close>, never finds a key: an odd number of announced arguments
  is an \<open>ErrInvalidCommand\<close>, and for an even number it reads arguments and returns none of them.
\<close>

theorem oddIndices_finds_nothing:
  assumes "reprs h (map RBulk ss) ms a b" "0 \<le> sz"
  shows "\<exists>h' err. oddIndices go_on (SliceSeq ms) sz h = Ret (([], err), h') \<and>
    (if odd sz then \<exists>e. err = Some e \<and> errors_Is e ErrInvalidCommand else err = None)"
  using oddIndices_loop_bulks [OF assms(1), of go_on] assms(2)
  by (auto simp: oddIndices_def seq_items_def o_def odd_iff_mod_2_eq_one)

theorem oddIndices_finds_nothing_witness:
  "\<exists>ms h h'. NewBulkStrings [''k'', ''v''] empty_heap = (ms, h) \<and>
     oddIndices True (SliceSeq ms) 2 h = Ret (([], None), h')"
proof -
  obtain ms h where ms: "NewBulkStrings [''k'', ''v''] empty_heap = (ms, h)" by fastforce
  from NewBulkStrings_repr [OF ms] have r: "reprs h (map RBulk [''k'', ''v'']) ms 0 (brk h)" by simp
  from oddIndices_finds_nothing [OF r, of 2 True] ms show ?thesis by auto
qed

end
