(* ===== verification/Key_Locker.thy ===== *)
theory Key_Locker
  imports Badger Commands "HOL-Library.Sublist"
begin

text \<open>
  \<^verbatim>\<open>anarchoredis/localstate/keylocker.go\<close>: locks on keys as entries of the local database.

  The database is the parameter \<open>B\<close>; \<open>setEntry\<close> is its \<open>SetEntry\<close> with a time to live, and \<open>feed\<close> its subscription: for
  a list of key prefixes, the batches of updates it delivers before the context ends and the error it ends with.
\<close>

type_synonym kvlist = "(bytes \<times> bytes) list"

definition sentinel :: bytes where "sentinel = ''OK''"
definition keyprefix :: string where "keyprefix = ''anarcho:key:''"

definition TrimPrefix :: "string \<Rightarrow> string \<Rightarrow> string" where
  "TrimPrefix s p = (if take (length p) s = p then drop (length p) s else s)"

subsection \<open>UnlockKeys\<close>

fun unlock_loop :: "('db, 't) badger \<Rightarrow> string list \<Rightarrow> 't \<Rightarrow> error option \<times> 't" where
  "unlock_loop B [] t = (None, t)"
| "unlock_loop B (key # keys) t =
     (case txnDelete B t (keyprefix @ key) of
        (Some err, t') \<Rightarrow> (Some err, t')
      | (None, t') \<Rightarrow> unlock_loop B keys t')"

definition UnlockKeys :: "('db, 't) badger \<Rightarrow> string list \<Rightarrow> 'db \<Rightarrow> error option \<times> 'db" where
  "UnlockKeys B keys db = Update B db (unlock_loop B keys)"

subsection \<open>AwaitUnlocked\<close>

text \<open>The scan collects the locked keys, as prefixes to subscribe to and as the set to wait for.\<close>

fun await_scan :: "('db, 't) badger \<Rightarrow> 't \<Rightarrow> string list \<Rightarrow> string list \<Rightarrow> error + string list" where
  "await_scan B t [] waitFor = Inr waitFor"
| "await_scan B t (key # keys) waitFor =
     (case txnGet B t (keyprefix @ key) of
        Inl err \<Rightarrow> if errors_Is err BadgerKeyNotFound then await_scan B t keys waitFor else Inl err
      | Inr item \<Rightarrow> await_scan B t keys (waitFor @ [key]))"

definition seen_removed :: "kvlist \<Rightarrow> string list \<Rightarrow> string list" where
  "seen_removed kvs waitSet =
     fold (\<lambda>(k, v) ws. if v \<noteq> sentinel then removeAll (TrimPrefix k keyprefix) ws else ws) kvs waitSet"

fun subscribe_loop :: "kvlist list \<Rightarrow> error \<Rightarrow> string list \<Rightarrow> error" where
  "subscribe_loop [] fin waitSet = fin"
| "subscribe_loop (kvs # later) fin waitSet =
     (let ws = seen_removed kvs waitSet in if ws \<noteq> [] then subscribe_loop later fin ws else ErrDone)"

text \<open>What \<open>AwaitUnlocked\<close> does once it has the keys: an error of the scan counts as unlocked.\<close>

definition await_keys :: "('db, 't) badger \<Rightarrow> (bytes list \<Rightarrow> kvlist list \<times> error) \<Rightarrow> string list \<Rightarrow> 'db \<Rightarrow> error option" where
  "await_keys B feed keys db =
     (case View B db (\<lambda>t. await_scan B t keys []) of
        Inl err \<Rightarrow> None
      | Inr waitFor \<Rightarrow>
          if waitFor = [] then None
          else let (batches, fin) = feed waitFor; err = subscribe_loop batches fin waitFor
               in if errors_Is err ErrDone then None else Some err)"

definition AwaitUnlocked :: "('db, 't) badger \<Rightarrow> (bytes list \<Rightarrow> kvlist list \<times> error) \<Rightarrow> bool \<Rightarrow> Command \<Rightarrow> 'db \<Rightarrow> heap \<Rightarrow>
    (error option \<times> heap) go" where
  "AwaitUnlocked B feed go_on cmd db h =
     go_bind (Keys go_on cmd h) (\<lambda>((keys, err), h1).
       case err of Some e \<Rightarrow> Ret (Some e, h1) | None \<Rightarrow> Ret (await_keys B feed keys db, h1))"

subsection \<open>LockKeys\<close>

type_synonym 't set_entry = "'t \<Rightarrow> bytes \<Rightarrow> bytes \<Rightarrow> int \<Rightarrow> error option \<times> 't"

fun lock_loop :: "'t set_entry \<Rightarrow> int \<Rightarrow> string list \<Rightarrow> 't \<Rightarrow> error option \<times> 't" where
  "lock_loop setEntry ttl [] t = (None, t)"
| "lock_loop setEntry ttl (key # keys) t =
     (case setEntry t key sentinel ttl of
        (Some err, t') \<Rightarrow> (Some err, t')
      | (None, t') \<Rightarrow> lock_loop setEntry ttl keys t')"

definition lock_keys :: "('db, 't) badger \<Rightarrow> 't set_entry \<Rightarrow> int \<Rightarrow> string list \<Rightarrow> 'db \<Rightarrow> error option \<times> 'db" where
  "lock_keys B setEntry ttl keys db = Update B db (lock_loop setEntry ttl keys)"

definition LockKeys :: "('db, 't) badger \<Rightarrow> 't set_entry \<Rightarrow> int \<Rightarrow> bool \<Rightarrow> Command \<Rightarrow> 'db \<Rightarrow> heap \<Rightarrow>
    ((error option \<times> 'db) \<times> heap) go" where
  "LockKeys B setEntry ttl go_on cmd db h =
     go_bind (Keys go_on cmd h) (\<lambda>((keys, err), h1).
       case err of Some e \<Rightarrow> Ret ((Some e, db), h1) | None \<Rightarrow> Ret (lock_keys B setEntry ttl keys db, h1))"

subsection \<open>Lemmas\<close>

text \<open>The keys that are locked, as \<open>AwaitUnlocked\<close> and \<open>UnlockKeys\<close> see it.\<close>

definition locked :: "(bytes \<Rightarrow> bytes option) \<Rightarrow> string \<Rightarrow> bool" where
  "locked m k \<longleftrightarrow> m (keyprefix @ k) \<noteq> None"

text \<open>The keys a stream of updates reports as removed.\<close>

definition released :: "kvlist list \<Rightarrow> string \<Rightarrow> bool" where
  "released batches k \<longleftrightarrow> (\<exists>kvs \<in> set batches. \<exists>(x, v) \<in> set kvs. v \<noteq> sentinel \<and> TrimPrefix x keyprefix = k)"

lemma set_seen_removed:
  "set (seen_removed kvs ws) = {k \<in> set ws. \<not> released [kvs] k}"
proof (induction kvs arbitrary: ws)
  case Nil
  then show ?case by (simp add: seen_removed_def released_def)
next
  case (Cons kv kvs)
  have "seen_removed (kv # kvs) ws =
      seen_removed kvs (if snd kv \<noteq> sentinel then removeAll (TrimPrefix (fst kv) keyprefix) ws else ws)"
    by (simp add: seen_removed_def case_prod_beta)
  then show ?case using Cons by (auto simp: released_def)
qed

lemma released_Cons: "released (kvs # later) k \<longleftrightarrow> released [kvs] k \<or> released later k"
  by (auto simp: released_def)

lemma subscribe_loop_result:
  "ws \<noteq> [] \<Longrightarrow> subscribe_loop batches fin ws = (if \<forall>k \<in> set ws. released batches k then ErrDone else fin)"
proof (induction batches arbitrary: ws)
  case Nil
  then show ?case by (auto simp: released_def neq_Nil_conv)
next
  case (Cons kvs later)
  show ?case
  proof (cases "seen_removed kvs ws = []")
    case True
    then have "\<forall>k \<in> set ws. released [kvs] k" using set_seen_removed [of kvs ws] by auto
    moreover have "subscribe_loop (kvs # later) fin ws = ErrDone" using True by (simp add: Let_def)
    ultimately show ?thesis unfolding released_Cons [of kvs later] by metis
  next
    case False
    have "(\<forall>k \<in> set (seen_removed kvs ws). released later k) \<longleftrightarrow> (\<forall>k \<in> set ws. released (kvs # later) k)"
      unfolding set_seen_removed released_Cons [of kvs later] by blast
    then show ?thesis using Cons.IH [OF False] False by (simp add: Let_def)
  qed
qed

context badger_laws
begin

lemma unlock_loop_view:
  "unlock_loop B keys t = (err, t') \<Longrightarrow> tbase t' = tbase t \<and>
   (err = None \<longrightarrow> tview t' = tview t |` (- (\<lambda>k. keyprefix @ k) ` set keys))"
proof (induction keys arbitrary: t)
  case Nil
  then show ?case by (auto simp: restrict_map_def)
next
  case (Cons key keys)
  obtain e t1 where t1: "txnDelete B t (keyprefix @ key) = (e, t1)" by fastforce
  show ?case
  proof (cases e)
    case None
    then have v: "tview t1 = (tview t)(keyprefix @ key := None)" "tbase t1 = tbase t" using t1 delete_ok by auto
    have "(tview t)(keyprefix @ key := None) |` (- (\<lambda>k. keyprefix @ k) ` set keys) =
        tview t |` (- (\<lambda>k. keyprefix @ k) ` set (key # keys))"
      by (auto simp: restrict_map_def fun_eq_iff)
    moreover have "unlock_loop B keys t1 = (err, t')" using Cons.prems t1 None by simp
    ultimately show ?thesis using Cons.IH [of t1] v by metis
  next
    case (Some x)
    then show ?thesis using Cons.prems t1 delete_err by auto
  qed
qed

lemma UnlockKeys_content:
  assumes "UnlockKeys B keys db = (err, db')"
  shows "content db' = (if err = None then content db |` (- (\<lambda>k. keyprefix @ k) ` set keys) else content db)"
proof -
  have "if err = None then \<exists>t'. unlock_loop B keys (NewTransaction B db) = (None, t') \<and> content db' = tview t'
      else content db' = content db"
    by (rule Update_cases [OF assms [unfolded UnlockKeys_def]]) (auto dest: unlock_loop_view)
  then show ?thesis using unlock_loop_view [of keys "NewTransaction B db"] begin_view by (auto split: if_splits)
qed

end

context badger_healthy
begin

lemma await_scan_locked:
  "await_scan B t keys waitFor = Inr (waitFor @ filter (locked (tview t)) keys)"
  by (induction keys arbitrary: waitFor) (auto simp: get_total locked_def split: option.splits)

lemma View_await_scan:
  "View B db (\<lambda>t. await_scan B t keys []) = Inr (filter (locked (content db)) keys)"
  by (simp add: View_def open_db await_scan_locked begin_view)

lemma await_keys_locked:
  "await_keys B feed keys db =
     (if filter (locked (content db)) keys = [] then None
      else let (batches, fin) = feed (filter (locked (content db)) keys);
               err = subscribe_loop batches fin (filter (locked (content db)) keys)
           in if errors_Is err ErrDone then None else Some err)"
  unfolding await_keys_def View_await_scan by (simp only: sum.case)

lemma await_keys_unlocked: "\<forall>k \<in> set keys. \<not> locked (content db) k \<Longrightarrow> await_keys B feed keys db = None"
  by (simp add: await_keys_locked filter_False)

lemma await_keys_result:
  assumes fin: "\<And>ps. \<not> errors_Is (snd (feed ps)) ErrDone"
  shows "await_keys B feed keys db =
    (if \<forall>k \<in> set keys. locked (content db) k \<longrightarrow> released (fst (feed (filter (locked (content db)) keys))) k
     then None else Some (snd (feed (filter (locked (content db)) keys))))"
proof (cases "filter (locked (content db)) keys = []")
  case True
  then show ?thesis by (auto simp: await_keys_locked filter_empty_conv)
next
  case False
  obtain batches e where f: "feed (filter (locked (content db)) keys) = (batches, e)" by fastforce
  have "\<not> errors_Is e ErrDone" using fin [of "filter (locked (content db)) keys"] f by simp
  with subscribe_loop_result [OF False, of batches e] show ?thesis
    unfolding await_keys_locked using False f by (auto simp: Let_def)
qed

end

text \<open>
  What is asked of \<open>SetEntry\<close>: whatever the time to live, a write to one key shows at that key only, and inside
  its transaction. The database counts the expiry of an entry in whole seconds, so an entry with a time to live of a
  second or more is there when it has been written; one with a shorter time may have expired already. That an entry
  vanishes later is not modelled. Durations are in nanoseconds, as in the standard library.
\<close>

abbreviation one_second :: int where
  "one_second \<equiv> 1000000000"

locale badger_ttl = badger_healthy +
  fixes setEntry :: "'b set_entry"
  assumes entry_other: "setEntry t k v ttl = (e, t') \<Longrightarrow> k' \<noteq> k \<Longrightarrow> tview t' k' = tview t k'"
    and entry_base: "setEntry t k v ttl = (e, t') \<Longrightarrow> tbase t' = tbase t"
    and entry_written: "setEntry t k v ttl = (None, t') \<Longrightarrow> one_second \<le> ttl \<Longrightarrow> tview t' k = Some v"
begin

lemma lock_loop_frame:
  "lock_loop setEntry ttl keys t = (err, t') \<Longrightarrow> tbase t' = tbase t \<and> (\<forall>x. x \<notin> set keys \<longrightarrow> tview t' x = tview t x)"
proof (induction keys arbitrary: t)
  case Nil
  then show ?case by simp
next
  case (Cons key keys)
  obtain e t1 where t1: "setEntry t key sentinel ttl = (e, t1)" by fastforce
  then have frame: "tbase t1 = tbase t" "\<And>x. x \<noteq> key \<Longrightarrow> tview t1 x = tview t x"
    by (rule entry_base, simp add: entry_other [OF t1])
  show ?case
  proof (cases e)
    case None
    then have "lock_loop setEntry ttl keys t1 = (err, t')" using Cons.prems t1 by simp
    then show ?thesis using Cons.IH [of t1] frame by simp
  next
    case (Some x)
    then show ?thesis using Cons.prems t1 frame by simp
  qed
qed

lemma lock_loop_written:
  "lock_loop setEntry ttl keys t = (None, t') \<Longrightarrow> one_second \<le> ttl \<Longrightarrow> x \<in> set keys \<Longrightarrow> tview t' x = Some sentinel"
proof (induction keys arbitrary: t)
  case (Cons key keys)
  obtain t1 where t1: "setEntry t key sentinel ttl = (None, t1)" "lock_loop setEntry ttl keys t1 = (None, t')"
    using Cons.prems(1) by (auto split: prod.splits option.splits)
  show ?case
  proof (cases "x \<in> set keys")
    case False
    then have "tview t' x = tview t1 x" "x = key" using lock_loop_frame [OF t1(2)] Cons.prems(3) by auto
    then show ?thesis using entry_written [OF t1(1) Cons.prems(2)] by simp
  qed (use Cons.IH [OF t1(2) Cons.prems(2)] in simp)
qed simp

lemma lock_keys_content:
  assumes "lock_keys B setEntry ttl keys db = (err, db')"
  shows "x \<notin> set keys \<or> err \<noteq> None \<Longrightarrow> content db' x = content db x"
    and "x \<in> set keys \<Longrightarrow> err = None \<Longrightarrow> one_second \<le> ttl \<Longrightarrow> content db' x = Some sentinel"
proof -
  have r: "if err = None then \<exists>t'. lock_loop setEntry ttl keys (NewTransaction B db) = (None, t') \<and> content db' = tview t'
      else content db' = content db"
    by (rule Update_cases [OF assms(1) [unfolded lock_keys_def]]) (auto dest: lock_loop_frame)
  then show "x \<notin> set keys \<or> err \<noteq> None \<Longrightarrow> content db' x = content db x"
    using lock_loop_frame [of ttl keys "NewTransaction B db"] begin_view by (auto split: if_splits)
  show "x \<in> set keys \<Longrightarrow> err = None \<Longrightarrow> one_second \<le> ttl \<Longrightarrow> content db' x = Some sentinel"
    using r lock_loop_written [of ttl keys "NewTransaction B db"] by (auto split: if_splits)
qed

end

definition mem_set_entry :: "memtxn set_entry" where
  "mem_set_entry t k v ttl = mem_write (AList.update k v) t"

interpretation mem_ttl: badger_ttl mem_badger mem_content mem_view mem_base mem_set_entry
  by unfold_locales (auto simp: mem_set_entry_def mem_defs update_conv' split: if_splits)

lemma no_release: "\<forall>kvs \<in> set batches. kvs = [] \<Longrightarrow> \<not> released batches k"
  by (auto simp: released_def)

subsection \<open>Properties\<close>

abbreviation lock_db :: "(bytes \<times> bytes) list \<Rightarrow> memdb" where
  "lock_db es \<equiv> \<lparr>entries = es, txnLimit = 10\<rparr>"

text \<open>
  C26. Unlocking is atomic and exact, and releases waiters: when \<open>UnlockKeys\<close> succeeds the database has lost the lock
  entries of the given keys and nothing else, and awaiting those keys returns nil at once whatever the subscription
  would deliver; when it fails the database is as it was.
\<close>

theorem unlock_releases:
  assumes "badger_healthy B content tview tbase" and "UnlockKeys B keys db = (err, db')"
  shows "(err = None \<and> content db' = content db |` (- (\<lambda>k. keyprefix @ k) ` set keys) \<and> await_keys B feed keys db' = None) \<or>
    (err \<noteq> None \<and> content db' = content db)"
proof -
  have c: "content db' = (if err = None then content db |` (- (\<lambda>k. keyprefix @ k) ` set keys) else content db)"
    by (rule badger_laws.UnlockKeys_content [OF badger_healthy.axioms(1) [OF assms(1)] assms(2)])
  show ?thesis
  proof (cases err)
    case None
    then have "\<forall>k \<in> set keys. \<not> locked (content db') k" by (auto simp: c locked_def restrict_map_def)
    from badger_healthy.await_keys_unlocked [OF assms(1) this] show ?thesis using None c by simp
  qed (use c in simp)
qed

theorem unlock_releases_witness:
  "await_keys mem_badger (\<lambda>ps. ([], ErrCanceled)) [''a''] (lock_db []) = None \<and>
   UnlockKeys mem_badger [''a''] (lock_db [(keyprefix @ ''a'', sentinel)]) = (None, lock_db [])"
proof -
  have u: "UnlockKeys mem_badger [''a''] (lock_db [(keyprefix @ ''a'', sentinel)]) = (None, lock_db [])"
    by (simp add: UnlockKeys_def Update_def mem_badger_def mem_write_def keyprefix_def)
  from unlock_releases [OF mem.badger_healthy_axioms u, of "\<lambda>ps. ([], ErrCanceled)"] u show ?thesis by simp
qed

text \<open>
  C31. \<open>LockKeys\<close> does not lock. With a time to live of at least a second and keys of which none starts with the lock prefix, it
  stores, when it succeeds, the sentinel under each bare key and changes no other entry; when it fails it changes nothing.
  Either way a key is locked afterwards exactly if it was before. So if none of the keys was locked before, a second client
  that awaits the keys the first has just locked returns nil at once, whatever the subscription would deliver.
\<close>

theorem lock_keys_locks_nothing:
  assumes "badger_ttl B content tview tbase setEntry" and "lock_keys B setEntry ttl keys db = (err, db')"
    and "one_second \<le> ttl" and "\<forall>k \<in> set keys. \<not> prefix keyprefix k"
  shows "content db' = (if err = None then \<lambda>x. if x \<in> set keys then Some sentinel else content db x else content db) \<and>
    (\<forall>k. locked (content db') k \<longleftrightarrow> locked (content db) k) \<and>
    ((\<forall>k \<in> set keys. \<not> locked (content db) k) \<longrightarrow> await_keys B feed keys db' = None)"
proof -
  note c = badger_ttl.lock_keys_content [OF assms(1,2)]
  have "keyprefix @ k \<notin> set keys" for k using assms(4) by (auto simp: prefix_def)
  then have same: "locked (content db') k \<longleftrightarrow> locked (content db) k" for k
    using c(1) by (simp add: locked_def)
  moreover have "content db' = (if err = None then \<lambda>x. if x \<in> set keys then Some sentinel else content db x else content db)"
    using c assms(3) by (auto simp: fun_eq_iff)
  ultimately show ?thesis
    using badger_healthy.await_keys_unlocked [OF badger_ttl.axioms(1) [OF assms(1)]] by blast
qed

theorem lock_keys_locks_nothing_witness:
  "lock_keys mem_badger mem_set_entry (5 * one_second) [''a''] (lock_db []) = (None, lock_db [(''a'', sentinel)]) \<and>
   mem_content (lock_db [(''a'', sentinel)]) = (\<lambda>x. if x \<in> set [''a''] then Some sentinel else mem_content (lock_db []) x) \<and>
   await_keys mem_badger (\<lambda>ps. ([], ErrCanceled)) [''a''] (lock_db [(''a'', sentinel)]) = None"
proof -
  have l: "lock_keys mem_badger mem_set_entry (5 * one_second) [''a''] (lock_db []) = (None, lock_db [(''a'', sentinel)])"
    by (simp add: lock_keys_def Update_def mem_badger_def mem_set_entry_def mem_write_def)
  have k: "\<forall>k \<in> set [''a'']. \<not> prefix keyprefix k" "\<forall>k \<in> set [''a'']. \<not> locked (mem_content (lock_db [])) k"
    by (simp_all add: keyprefix_def locked_def mem_content_def)
  have "one_second \<le> 5 * one_second" by simp
  from lock_keys_locks_nothing [OF mem_ttl.badger_ttl_axioms l this k(1), of "\<lambda>ps. ([], ErrCanceled)"] l k(2)
  show ?thesis by simp
qed

text \<open>
  C27. Awaiting keys returns nil exactly when every key that was locked at the scan is reported in a delivered update
  with a value other than the lock's; otherwise it returns the error the subscription ends with.
\<close>

theorem await_returns_iff_released:
  assumes "badger_healthy B content tview tbase" and "\<And>ps. \<not> errors_Is (snd (feed ps)) ErrDone"
  shows "await_keys B feed keys db =
    (if \<forall>k \<in> set keys. locked (content db) k \<longrightarrow> released (fst (feed (filter (locked (content db)) keys))) k
     then None else Some (snd (feed (filter (locked (content db)) keys))))"
  by (rule badger_healthy.await_keys_result [OF assms])

theorem await_returns_iff_released_witness:
  "await_keys mem_badger (\<lambda>ps. ([[(''a'', ''gone'')]], ErrCanceled)) [''a''] (lock_db [(keyprefix @ ''a'', sentinel)]) = None \<and>
   await_keys mem_badger (\<lambda>ps. ([], ErrCanceled)) [''a''] (lock_db [(keyprefix @ ''a'', sentinel)]) = Some ErrCanceled"
  using await_returns_iff_released [OF mem.badger_healthy_axioms, of "\<lambda>ps. ([[(''a'', ''gone'')]], ErrCanceled)" "[''a'']"]
    await_returns_iff_released [OF mem.badger_healthy_axioms, of "\<lambda>ps. ([], ErrCanceled)" "[''a'']"]
  by (simp add: locked_def mem_content_def released_def sentinel_def TrimPrefix_def keyprefix_def)

text \<open>
  The subscription asks for the bare keys, not for their lock entries. When it delivers only updates of keys with a
  subscribed prefix, every update is of some lock entry, and no awaited key overlaps with the lock prefix, a key that
  is locked at the scan is awaited until the context ends, even if it is unlocked meanwhile.
\<close>

theorem await_misses_unlock:
  assumes "badger_healthy B content tview tbase" and "\<And>ps. \<not> errors_Is (snd (feed ps)) ErrDone"
    and "\<And>ps kvs x v. kvs \<in> set (fst (feed ps)) \<Longrightarrow> (x, v) \<in> set kvs \<Longrightarrow> \<exists>p \<in> set ps. prefix p x"
    and "\<And>ps kvs x v. kvs \<in> set (fst (feed ps)) \<Longrightarrow> (x, v) \<in> set kvs \<Longrightarrow> prefix keyprefix x"
    and "\<forall>k \<in> set keys. \<not> prefix k keyprefix \<and> \<not> prefix keyprefix k"
    and "\<exists>k \<in> set keys. locked (content db) k"
  shows "await_keys B feed keys db = Some (snd (feed (filter (locked (content db)) keys)))"
proof -
  let ?ps = "filter (locked (content db)) keys"
  have "kvs = []" if kvs: "kvs \<in> set (fst (feed ?ps))" for kvs
  proof (rule ccontr)
    assume "kvs \<noteq> []"
    then obtain x v where xv: "(x, v) \<in> set kvs" by (metis last_in_set surj_pair)
    obtain p where "p \<in> set ?ps" "prefix p x" using assms(3) [OF kvs xv] by blast
    moreover have "prefix keyprefix x" by (rule assms(4) [OF kvs xv])
    ultimately show False using assms(5) prefix_same_cases [of p x keyprefix] by auto
  qed
  then have "\<not> released (fst (feed ?ps)) k" for k using no_release by blast
  then show ?thesis
    using assms(6) unfolding badger_healthy.await_keys_result [where feed = feed, OF assms(1,2)] by auto
qed

theorem await_misses_unlock_witness:
  "await_keys mem_badger (\<lambda>ps. ([], ErrCanceled)) [''k''] (lock_db [(keyprefix @ ''k'', sentinel)]) = Some ErrCanceled"
proof -
  have "await_keys mem_badger (\<lambda>ps. ([], ErrCanceled)) [''k''] (lock_db [(keyprefix @ ''k'', sentinel)]) =
      Some (snd ((\<lambda>ps. ([] :: kvlist list, ErrCanceled))
        (filter (locked (mem_content (lock_db [(keyprefix @ ''k'', sentinel)]))) [''k''])))"
    by (rule await_misses_unlock [OF mem.badger_healthy_axioms]) (simp_all add: locked_def mem_content_def keyprefix_def)
  then show ?thesis by simp
qed

end
