(* ===== verification/Go_Strings.thy ===== *)
theory Go_Strings
  imports Go_Prelude
begin

text \<open>\<open>strings.Split\<close> at a non-empty separator, and what it returns.\<close>

fun split_from :: "string \<Rightarrow> string \<Rightarrow> nat \<Rightarrow> string \<Rightarrow> string list" where
  "split_from sep cur skip [] = [rev cur]"
| "split_from sep cur (Suc skip) (c # s) = split_from sep cur skip s"
| "split_from sep cur 0 (c # s) =
     (if take (length sep) (c # s) = sep then rev cur # split_from sep [] (length sep - 1) s
      else split_from sep (c # cur) 0 s)"

definition Split :: "string \<Rightarrow> string \<Rightarrow> string list" where
  "Split s sep = split_from sep [] 0 s"

fun Join :: "string list \<Rightarrow> string \<Rightarrow> string" where
  "Join [] sep = []"
| "Join [s] sep = s"
| "Join (s # t # ss) sep = s @ sep @ Join (t # ss) sep"

lemma split_from_not_Nil: "split_from sep cur skip s \<noteq> []"
  by (induction sep cur skip s rule: split_from.induct) auto

lemma Split_not_Nil [simp]: "Split s sep \<noteq> []"
  by (simp add: Split_def split_from_not_Nil)

lemma Join_Cons: "ss \<noteq> [] \<Longrightarrow> Join (s # ss) sep = s @ sep @ Join ss sep"
  by (cases ss) simp_all

lemma Join_split_from:
  assumes "sep \<noteq> []"
  shows "Join (split_from sep cur skip s) sep = rev cur @ drop skip s"
  using assms
proof (induction sep cur skip s rule: split_from.induct)
  case (3 sep cur c s)
  show ?case
  proof (cases "take (length sep) (c # s) = sep")
    case True
    then have "c # s = sep @ drop (length sep) (c # s)" by (metis append_take_drop_id)
    moreover have "drop (length sep) (c # s) = drop (length sep - 1) s"
      using "3.prems" by (cases sep) simp_all
    moreover have "split_from sep cur 0 (c # s) = rev cur # split_from sep [] (length sep - 1) s" using True by simp
    moreover have "Join (rev cur # split_from sep [] (length sep - 1) s) sep = rev cur @ sep @ drop (length sep - 1) s"
      using "3.IH"(1) [OF True "3.prems"] by (subst Join_Cons) (simp_all add: split_from_not_Nil)
    ultimately show ?thesis by simp
  qed (use 3 in simp)
qed simp_all

lemma Join_Split: "sep \<noteq> [] \<Longrightarrow> Join (Split s sep) sep = s"
  by (simp add: Split_def Join_split_from)

lemma split_from_char: "c \<notin> set a \<Longrightarrow> split_from [c] cur 0 (a @ c # b) = (rev cur @ a) # split_from [c] [] 0 b"
  by (induction a arbitrary: cur) auto

lemma split_from_last: "c \<notin> set a \<Longrightarrow> split_from [c] cur 0 a = [rev cur @ a]"
  by (induction a arbitrary: cur) auto

lemma Split_char: "c \<notin> set a \<Longrightarrow> Split (a @ c # b) [c] = a # Split b [c]"
  by (simp add: Split_def split_from_char)

lemma Split_last: "c \<notin> set a \<Longrightarrow> Split a [c] = [a]"
  by (simp add: Split_def split_from_last)

subsection \<open>Host and port\<close>

text \<open>\<open>net.SplitHostPort\<close>, with the host in brackets or free of colons.\<close>

fun IndexByte :: "char \<Rightarrow> string \<Rightarrow> nat option" where
  "IndexByte c [] = None"
| "IndexByte c (x # s) = (if x = c then Some 0 else map_option Suc (IndexByte c s))"

fun LastIndexByte :: "char \<Rightarrow> string \<Rightarrow> nat option" where
  "LastIndexByte c [] = None"
| "LastIndexByte c (x # s) =
     (case LastIndexByte c s of Some i \<Rightarrow> Some (Suc i) | None \<Rightarrow> if x = c then Some 0 else None)"

definition SplitHostPort :: "string \<Rightarrow> error + (string \<times> string)" where
  "SplitHostPort hostport =
     (let finish = (\<lambda>host i j k.
        if CHR ''['' \<in> set (drop j hostport) then Inl (New ''unexpected [ in address'')
        else if CHR '']'' \<in> set (drop k hostport) then Inl (New ''unexpected ] in address'')
        else Inr (host, drop (Suc i) hostport))
      in case LastIndexByte CHR '':'' hostport of
           None \<Rightarrow> Inl (New ''missing port in address'')
         | Some i \<Rightarrow>
             if take 1 hostport = ''['' then
               (case IndexByte CHR '']'' hostport of
                  None \<Rightarrow> Inl (New ''missing ] in address'')
                | Some e \<Rightarrow>
                    if e + 1 = length hostport then Inl (New ''missing port in address'')
                    else if e + 1 = i then finish (drop 1 (take e hostport)) i 1 (e + 1)
                    else if hostport ! (e + 1) = CHR '':'' then Inl (New ''too many colons in address'')
                    else Inl (New ''missing port in address''))
             else if CHR '':'' \<in> set (take i hostport) then Inl (New ''too many colons in address'')
             else finish (take i hostport) i 0 0)"

lemma LastIndexByte_None: "c \<notin> set s \<Longrightarrow> LastIndexByte c s = None"
  by (induction s) auto

lemma LastIndexByte_append: "c \<notin> set t \<Longrightarrow> LastIndexByte c (s @ c # t) = Some (length s)"
  by (induction s) (auto simp: LastIndexByte_None)

text \<open>A plain host and port come apart at the colon.\<close>

lemma SplitHostPort_plain:
  assumes "set host \<inter> {CHR ''['', CHR '']'', CHR '':''} = {}" "set port \<inter> {CHR ''['', CHR '']'', CHR '':''} = {}"
  shows "SplitHostPort (host @ '':'' @ port) = Inr (host, port)"
proof -
  have i: "LastIndexByte CHR '':'' (host @ '':'' @ port) = Some (length host)"
    using LastIndexByte_append [of "CHR '':''" port host] assms(2) by simp
  have "take 1 (host @ '':'' @ port) \<noteq> ''[''" using assms(1) by (cases host) auto
  then show ?thesis unfolding SplitHostPort_def i using assms by auto
qed

end
