(* ===== verification/Transactor.thy ===== *)
theory Transactor
  imports Conn Key_Locker Go_Strings
begin

text \<open>
  \<^verbatim>\<open>anarchoredis/txn.go\<close>: the proxy in front of the redis server, which holds back the answer to a write until the
  replication stream has carried the command into the transaction log.

  The two connections, the local database and the name of the selected database are the state. The transaction log is
  an interface: \<open>logAppend\<close> gives the error of a call, and the calls made are recorded in \<open>tAppended\<close>. The expression
  \<^verbatim>\<open>cmd.Args[0]\<close> indexes an iterator, so its value is the parameter \<open>arg0\<close>; \<^verbatim>\<open>msg.Cmd()\<close> is the function \<open>Cmd\<close>.
\<close>

record Conf =
  ListenAddress :: string
  RedisAddress :: string
  KafkaAddress :: "string list"
  Topic :: string
  ClientID :: string
  GroupID :: string
  LocalStateDir :: string
  LockTTL :: int

definition LoadEnv :: "(string \<Rightarrow> string) \<Rightarrow> Conf \<Rightarrow> Conf" where
  "LoadEnv Getenv conf = conf\<lparr>
     ListenAddress := Getenv ''LISTEN_ADDRESS'',
     RedisAddress := Getenv ''REDIS_ADDRESS'',
     KafkaAddress := Split (Getenv ''KAFKA_ADDRESS'') '','',
     ClientID := Getenv ''CLIENT_ID'',
     GroupID := Getenv ''GROUP_ID'',
     Topic := Getenv ''TXN_TOPIC''\<rparr>"

record 'db Transactor =
  tConf :: Conf
  tKeys :: 'db
  tKeysTTL :: int
  tAppended :: "(message \<times> string) list"
  tDatabase :: string

text \<open>\<open>open_db\<close> is \<open>badger.Open\<close>, given the directory and whether the database is kept in memory.\<close>

definition NewTransactor :: "(string \<Rightarrow> bool \<Rightarrow> error + 'db) \<Rightarrow> Conf \<Rightarrow> error + 'db Transactor" where
  "NewTransactor open_db conf =
     (case open_db (LocalStateDir conf) (LocalStateDir conf = []) of
        Inl err \<Rightarrow> Inl (Errorf ''badgerdb.Open(): %w'' [err])
      | Inr db \<Rightarrow> Inr \<lparr>tConf = conf, tKeys = db, tKeysTTL = 0, tAppended = [], tDatabase = ''0''\<rparr>)"

subsection \<open>The replication side\<close>

text \<open>\<open>ctxErr\<close> is the context's error on entry and \<open>cause\<close> its cause on return.\<close>

definition handleMessages :: "('db, 't) badger \<Rightarrow> (string \<Rightarrow> string) \<Rightarrow> bool \<Rightarrow> (message \<Rightarrow> string \<Rightarrow> error option) \<Rightarrow>
    error option \<Rightarrow> error option \<Rightarrow> message \<Rightarrow> heap \<times> 'db Transactor \<Rightarrow> (error option \<times> heap \<times> 'db Transactor) go" where
  "handleMessages B up go_on logAppend ctxErr cause msg = (\<lambda>(h, t).
     if ctxErr \<noteq> None then Ret (ctxErr, h, t)
     else go_bind (Cmd up msg h) (\<lambda>(r, h1).
       case r of
         Inl err \<Rightarrow> Ret (Some err, h1, t)
       | Inr cmd \<Rightarrow> go_bind (Keys go_on cmd h1) (\<lambda>((keys, err), h2).
           case err of
             Some e \<Rightarrow> Ret (Some e, h2, t)
           | None \<Rightarrow>
               let t1 = t\<lparr>tAppended := tAppended t @ [(msg, tDatabase t)]\<rparr> in
               case logAppend msg (tDatabase t) of
                 Some e \<Rightarrow> Ret (Some e, h2, t1)
               | None \<Rightarrow>
                   let (err, db') = UnlockKeys B keys (tKeys t1) in
                   if err \<noteq> None then Ret (err, h2, t1\<lparr>tKeys := db'\<rparr>)
                   else Ret (cause, h2, t1\<lparr>tKeys := db'\<rparr>))))"

subsection \<open>The client side\<close>

type_synonym 'db proxy_state = "heap \<times> Conn \<times> Conn \<times> 'db Transactor"

text \<open>From the point where the command has been read; \<open>None\<close> is the nil pointer left by a failed \<open>Cmd\<close>.\<close>

definition proxy_command :: "('db, 't) badger \<Rightarrow> 't set_entry \<Rightarrow> (bytes list \<Rightarrow> kvlist list \<times> error) \<Rightarrow> bool \<Rightarrow>
    (seq \<Rightarrow> string) \<Rightarrow> message \<Rightarrow> Command option \<Rightarrow> 'db proxy_state \<Rightarrow> (error option \<times> 'db proxy_state) go" where
  "proxy_command B setEntry feed go_on arg0 resp cmdp = (\<lambda>(h, c, u, t).
     case cmdp of
       None \<Rightarrow> Panic ''nil pointer dereference''
     | Some cmd \<Rightarrow>
         let t1 = (if cmdName cmd = ''SELECT'' then t\<lparr>tDatabase := arg0 (cmdArgs cmd)\<rparr> else t) in
         go_bind (if IsWrite cmd then LockKeys B setEntry (tKeysTTL t1) go_on cmd (tKeys t1) h
                  else Ret ((None, tKeys t1), h)) (\<lambda>((err, db'), h1).
           let t2 = t1\<lparr>tKeys := db'\<rparr> in
           if err \<noteq> None then Ret (err, h1, c, u, t2)
           else go_bind (AwaitUnlocked B feed go_on cmd (tKeys t2) h1) (\<lambda>(err, h2).
             if err \<noteq> None then Ret (err, h2, c, u, t2)
             else go_bind (Conn_Write resp (h2, c)) (\<lambda>((n, err), h3, c3).
               if err \<noteq> None then Ret (err, h3, c3, u, t2)
               else go_bind (Conn_Flush (h3, c3)) (\<lambda>(err, h4, c4). Ret (err, h4, c4, u, t2))))))"

definition proxy :: "('db, 't) badger \<Rightarrow> 't set_entry \<Rightarrow> (bytes list \<Rightarrow> kvlist list \<times> error) \<Rightarrow> (string \<Rightarrow> string) \<Rightarrow> bool \<Rightarrow>
    (seq \<Rightarrow> string) \<Rightarrow> 'db proxy_state \<Rightarrow> (error option \<times> 'db proxy_state) go" where
  "proxy B setEntry feed up go_on arg0 = (\<lambda>(h, c, u, t).
     go_bind (Conn_Read (h, c)) (\<lambda>((req, err), h1, c1).
       if err \<noteq> None then Ret (err, h1, c1, u, t)
       else go_bind (Conn_Write req (h1, u)) (\<lambda>((n, err), h2, u2).
         if err \<noteq> None then Ret (err, h2, c1, u2, t)
         else go_bind (Conn_Flush (h2, u2)) (\<lambda>(err, h3, u3).
           if err \<noteq> None then Ret (err, h3, c1, u3, t)
           else go_bind (Conn_Read (h3, u3)) (\<lambda>((resp, err), h4, u4).
             if err \<noteq> None then Ret (err, h4, c1, u4, t)
             else go_bind (Cmd up req h4) (\<lambda>(r, h5).
               case r of
                 Inr cmd \<Rightarrow> proxy_command B setEntry feed go_on arg0 resp (Some cmd) (h5, c1, u4, t)
               | Inl err \<Rightarrow>
                   go_bind (Conn_Write (NewError (Some err)) (h5, c1)) (\<lambda>((n, err), h6, c6).
                     if err \<noteq> None then Ret (err, h6, c6, u4, t)
                     else proxy_command B setEntry feed go_on arg0 resp None (h6, c6, u4, t))))))))"

text \<open>The loop around it: one entry of \<open>alive\<close> per check of the context, which has ended when the list is used up.\<close>

fun proxy_loop :: "('db, 't) badger \<Rightarrow> 't set_entry \<Rightarrow> (bytes list \<Rightarrow> kvlist list \<times> error) \<Rightarrow> (string \<Rightarrow> string) \<Rightarrow> bool \<Rightarrow>
    (seq \<Rightarrow> string) \<Rightarrow> error option \<Rightarrow> unit list \<Rightarrow> 'db proxy_state \<Rightarrow> (error option \<times> 'db proxy_state) go" where
  "proxy_loop B setEntry feed up go_on arg0 cause [] st = Ret (cause, st)"
| "proxy_loop B setEntry feed up go_on arg0 cause (x # alive) st =
     go_bind (proxy B setEntry feed up go_on arg0 st) (\<lambda>(err, st').
       if err \<noteq> None then Ret (err, st') else proxy_loop B setEntry feed up go_on arg0 cause alive st')"

subsection \<open>Properties\<close>

text \<open>Every request reads as the zero message, which is written as one NUL byte.\<close>

lemma Encode_zero_msg: "Encode e zero_msg st = put [CHR 0x00] st"
  by (cases st) (auto simp: zero_msg_def kind_msg_def Let_def enc_then_def put_def enc_skip_def category_defs kind_defs
      split: prod.split option.split)

lemma Conn_Write_zero:
  assumes "\<not> cLocked u"
  obtains n err w where "Conn_Write zero_msg (h, u) = Ret ((n, err), h, u\<lparr>cWriter := w\<rparr>)"
    "out w = out (cWriter u) \<or> out w = out (cWriter u) @ [CHR 0x00]"
proof -
  obtain n err w where w: "Write [CHR 0x00] (cWriter u) = ((n, err), w)" by (metis surj_pair)
  then have "out w = out (cWriter u) \<or> out w = out (cWriter u) @ [CHR 0x00]"
    by (auto simp: Write_def split: option.splits if_splits)
  moreover have "Conn_Write zero_msg (h, u) = Ret ((n, err), h, u\<lparr>cWriter := w\<rparr>)"
    using assms w by (simp add: Conn_Write_def with_lock_def Encode_zero_msg put_def)
  ultimately show thesis using that by blast
qed

lemma Cmd_zero_msg: "\<exists>e. Cmd up zero_msg h = Ret (Inl e, h)"
  by (simp add: Cmd_def zero_msg_def kind_msg_def kind_defs)

lemma Conn_Write_error:
  assumes "\<not> cLocked c"
  shows "\<exists>n e c'. Conn_Write (NewError (Some err)) (h, c) = Ret ((n, Some e), h, c') \<and> cPeer c' = cPeer c"
  using assms
  by (auto simp: Conn_Write_def with_lock_def NewError_def Let_def enc_then_def put_def simpleToByte_def kind_defs
      category_defs enc_fail_def split: prod.split option.split)

lemma rw_flush_out: "\<exists>err u'. rw_flush (h, u) = Ret (err, h, u') \<and> cLocked u' = cLocked u \<and> out (cWriter u') = out (cWriter u)"
proof -
  obtain n err p where "Write (drop (cFlushed u) (out (cWriter u))) (cPeer u) = ((n, err), p)" by (metis surj_pair)
  then show ?thesis by (cases err) (simp_all add: rw_flush_def)
qed

lemma Conn_Flush_out:
  assumes "\<not> cLocked u"
  obtains err u' where "Conn_Flush (h, u) = Ret (err, h, u')" "\<not> cLocked u'" "out (cWriter u') = out (cWriter u)"
proof -
  obtain err u' where "rw_flush (h, u\<lparr>cLocked := True\<rparr>) = Ret (err, h, u')" "out (cWriter u') = out (cWriter u)"
    using rw_flush_out [of h "u\<lparr>cLocked := True\<rparr>"] by auto
  then show thesis using assms that [of err "u'\<lparr>cLocked := False\<rparr>"] by (simp add: Conn_Flush_def with_lock_def)
qed

lemma proxy_fails:
  assumes "\<not> cLocked c" "\<not> cLocked u"
  shows "\<exists>err h' c' u'. proxy B setEntry feed up go_on arg0 (h, c, u, t) = Ret (Some err, h', c', u', t) \<and>
    cPeer c' = cPeer c \<and> out (cWriter u') \<in> {out (cWriter u), out (cWriter u) @ [CHR 0x00]}"
proof -
  obtain e1 h1 where r1: "Conn_Read (h, c) = Ret ((zero_msg, e1), h1, c)" using Conn_Read_zero [OF assms(1)] by blast
  obtain n e2 w where r2: "Conn_Write zero_msg (h1, u) = Ret ((n, e2), h1, u\<lparr>cWriter := w\<rparr>)"
    and w: "out w = out (cWriter u) \<or> out w = out (cWriter u) @ [CHR 0x00]"
    by (rule Conn_Write_zero [OF assms(2)])
  have free: "\<not> cLocked (u\<lparr>cWriter := w\<rparr>)" using assms(2) by simp
  obtain e3 u3 where r3: "Conn_Flush (h1, u\<lparr>cWriter := w\<rparr>) = Ret (e3, h1, u3)" "\<not> cLocked u3" "out (cWriter u3) = out w"
    by (rule Conn_Flush_out [OF free]) simp
  obtain e4 h4 where r4: "Conn_Read (h1, u3) = Ret ((zero_msg, e4), h4, u3)" using Conn_Read_zero [OF r3(2)] by blast
  obtain e5 where r5: "Cmd up zero_msg h4 = Ret (Inl e5, h4)" using Cmd_zero_msg by blast
  obtain k e6 c6 where r6: "Conn_Write (NewError (Some e5)) (h4, c) = Ret ((k, Some e6), h4, c6)" "cPeer c6 = cPeer c"
    using Conn_Write_error [OF assms(1)] by blast
  show ?thesis
    using r1 r2 w r3 r4 r5 r6
    by (cases e1; cases e2; cases e3; cases e4) (auto simp: proxy_def)
qed

abbreviation t0 :: "memdb Transactor" where
  "t0 \<equiv> \<lparr>tConf = \<lparr>ListenAddress = [], RedisAddress = [], KafkaAddress = [], Topic = [], ClientID = [], GroupID = [],
      LocalStateDir = [], LockTTL = 5\<rparr>, tKeys = lock_db [], tKeysTTL = 0, tAppended = [], tDatabase = ''0''\<rparr>"

text \<open>
  No client ever gets an answer through the proxy. From connections whose locks are free, one pass of the proxy
  always returns, and always with an error, so its loop ends after one pass. Nothing has been sent to the client, at
  most one NUL byte has been written for the server instead of the request, and the transactor's state is unchanged.
\<close>

theorem proxy_always_fails:
  assumes "\<not> cLocked c" "\<not> cLocked u"
  shows "\<exists>err h' c' u'. proxy B setEntry feed up go_on arg0 (h, c, u, t) = Ret (Some err, h', c', u', t) \<and>
    proxy_loop B setEntry feed up go_on arg0 cause (x # alive) (h, c, u, t) = Ret (Some err, h', c', u', t) \<and>
    cPeer c' = cPeer c \<and> out (cWriter u') \<in> {out (cWriter u), out (cWriter u) @ [CHR 0x00]}"
  using proxy_fails [OF assms, of B setEntry feed up go_on arg0 h t] by fastforce

theorem proxy_always_fails_witness:
  "\<exists>err h' c' u'. proxy mem_badger mem_set_entry (\<lambda>ps. ([], ErrCanceled)) id True (\<lambda>s. []) (empty_heap, a_conn, a_conn, t0) =
      Ret (Some err, h', c', u', t0) \<and> cPeer c' = buffer"
proof -
  have "\<not> cLocked a_conn" by (simp add: NewConnection_def)
  moreover have "cPeer a_conn = buffer" by (simp add: NewConnection_def)
  ultimately show ?thesis
    using proxy_always_fails [of a_conn a_conn mem_badger mem_set_entry "\<lambda>ps. ([], ErrCanceled)" id True "\<lambda>s. []"
      empty_heap t0 None "()" "[]"] by metis
qed

text \<open>
  C32. The replication side never records a command: whenever \<open>handleMessages\<close> returns, for any message and any log, it
  returns an error, has made no entry in the transaction log and has released no key.
\<close>

theorem handle_messages_never_logs:
  assumes "handleMessages B up go_on logAppend ctxErr cause msg (h, t) = Ret (err, h', t')"
  shows "err \<noteq> None \<and> t' = t"
proof (cases "ctxErr = None")
  case True
  obtain r h1 where c: "Cmd up msg h = Ret (r, h1)"
    using assms True by (auto simp: handleMessages_def go_bind_Ret_iff)
  show ?thesis
  proof (cases r)
    case (Inl e)
    then show ?thesis using assms True c by (auto simp: handleMessages_def)
  next
    case (Inr cmd)
    then obtain e where "Keys go_on cmd h1 = Ret (([], Some e), h1)"
      using Cmd_name_empty [of up msg h cmd h1] c by (auto simp: Keys_def cmdSpec_no_empty)
    then show ?thesis using assms True c Inr by (auto simp: handleMessages_def)
  qed
qed (use assms in \<open>auto simp: handleMessages_def\<close>)

theorem handle_messages_never_logs_witness:
  "\<exists>err h'. handleMessages mem_badger id True (\<lambda>m d. None) None None (SimpleString ''OK'') (empty_heap, t0) = Ret (Some err, h', t0)"
proof -
  obtain e where r: "handleMessages mem_badger id True (\<lambda>m d. None) None None (SimpleString ''OK'') (empty_heap, t0) =
      Ret (e, empty_heap, t0)"
    by (simp add: handleMessages_def Cmd_def SimpleString_def kind_defs)
  from handle_messages_never_logs [OF r] r show ?thesis by auto
qed

end
