(* ===== verification/Replication.thy ===== *)
theory Replication
  imports Conn Commands Go_Strings
begin

text \<open>
  \<^verbatim>\<open>anarchoredis/replication/replication.go\<close>: a subscriber to the replication stream of the redis server.

  A channel is a number; the subscriber's record keeps which channels exist and which are closed. The fields
  \<^verbatim>\<open>Array[0].Str\<close>, \<^verbatim>\<open>Indicator\<close>, \<^verbatim>\<open>Str\<close> and \<^verbatim>\<open>Size\<close> the file reads are not fields of the message struct of
  \<^verbatim>\<open>protocol/message\<close>, so they are a parameter \<open>view\<close>. The callback for messages has a state of its own.
\<close>

record Subscriber =
  LeaderAddr :: string
  MyAddr :: string
  sOffset :: int
  sReplicationID :: "string option"
  sCh :: "nat option"
  sOnce :: bool
  sDidSignal :: bool
  sMade :: nat
  sClosed :: "nat list"

record msg_view =
  vArray0 :: "string option"
  vIndicator :: Kind
  vStr :: string
  vSize :: int

subsection \<open>The start signal\<close>

definition make_ch :: "Subscriber \<Rightarrow> Subscriber" where
  "make_ch s = (if sCh s = None then s\<lparr>sCh := Some (sMade s), sMade := Suc (sMade s)\<rparr> else s)"

definition close_ch :: "Subscriber \<Rightarrow> Subscriber go" where
  "close_ch s =
     (case sCh s of
        None \<Rightarrow> Panic ''close of nil channel''
      | Some c \<Rightarrow> if c \<in> set (sClosed s) then Panic ''close of closed channel'' else Ret (s\<lparr>sClosed := c # sClosed s\<rparr>))"

definition Broadcast :: "Subscriber \<Rightarrow> Subscriber go" where
  "Broadcast s =
     (let s1 = make_ch s in
      if sOnce s1 then Ret s1
      else go_bind (close_ch (s1\<lparr>sOnce := True\<rparr>)) (\<lambda>s2. Ret (s2\<lparr>sDidSignal := True\<rparr>)))"

definition ReplicationStartedCh :: "Subscriber \<Rightarrow> nat option \<times> Subscriber" where
  "ReplicationStartedCh s = (sCh (make_ch s), make_ch s)"

subsection \<open>Talking to the leader\<close>

text \<open>\<open>dial\<close> is the outcome of dialling the leader: the reading and the writing end of the connection.\<close>

definition startReplication :: "error + (rid \<times> writer) \<Rightarrow> Subscriber \<Rightarrow> string \<Rightarrow> int \<Rightarrow> bool \<Rightarrow> heap \<Rightarrow>
    (error option \<times> heap \<times> Conn option) go" where
  "startReplication dial s replicationID offset snapshotOnly h =
     (case dial of
        Inl err \<Rightarrow> Ret (Some err, h, None)
      | Inr (r, peer) \<Rightarrow>
          (case SplitHostPort (MyAddr s) of
             Inl err \<Rightarrow> Ret (Some err, h, None)
           | Inr (myHost, myPort) \<Rightarrow>
               let p = NewConnection r peer;
                   (ping, h1) = NewOutgoingCommand [''PING''] h;
                   (psync, h2) = NewOutgoingCommand [''PSYNC'', replicationID, FormatInt offset] h1;
                   replconf = [''REPLCONF'', ''listening-port'', myPort, ''ip-address'', myHost, ''capa'', ''psync2''];
                   replconf' = (if snapshotOnly then replconf @ [''snapshot-only'', ''1''] else replconf);
                   (capa, h3) = NewOutgoingCommand replconf' h2
               in go_bind (RoundTrip ping (h3, p)) (\<lambda>((_, err), h4, p4).
                    if err \<noteq> None then Ret (err, h4, Some p4)
                    else go_bind (RoundTrip capa (h4, p4)) (\<lambda>((_, err), h5, p5).
                      if err \<noteq> None then Ret (err, h5, Some p5)
                      else go_bind (RoundTrip psync (h5, p5)) (\<lambda>((_, err), h6, p6). Ret (err, h6, Some p6))))))"

definition HasPrefix :: "string \<Rightarrow> string \<Rightarrow> bool" where
  "HasPrefix s p \<longleftrightarrow> take (length p) s = p"

fun info_loop :: "string list \<Rightarrow> string list \<Rightarrow> int list \<Rightarrow> error + (string list \<times> int list)" where
  "info_loop [] replids offsets = Inr (replids, offsets)"
| "info_loop (line # lines) replids offsets =
     (case Split line '':'' of
        [k, v] \<Rightarrow>
          let replids' = (if HasPrefix k ''master_replid'' then replids @ [v] else replids) in
          if HasPrefix k ''master_repl_offset'' then
            (case ParseInt v of Inl err \<Rightarrow> Inl err | Inr offset \<Rightarrow> info_loop lines replids' (offsets @ [offset]))
          else info_loop lines replids' offsets
      | _ \<Rightarrow> info_loop lines replids offsets)"

definition infoReplication :: "(message \<Rightarrow> msg_view) \<Rightarrow> heap \<times> Conn \<Rightarrow> ((error + (string list \<times> int list)) \<times> heap \<times> Conn) go" where
  "infoReplication view = (\<lambda>(h, p).
     let (info, h1) = NewBulkString ''info'' h; (repl, h2) = NewBulkString ''replication'' h1
     in go_bind (RoundTrip (NewArray [info, repl]) (h2, p)) (\<lambda>((read, err), st).
          case err of
            Some e \<Rightarrow> Ret (Inl e, st)
          | None \<Rightarrow> Ret (info_loop (Split (vStr (view read)) EOL) [] [], st)))"

definition replconfAck :: "(string \<Rightarrow> string) \<Rightarrow> (message \<Rightarrow> msg_view) \<Rightarrow> int \<Rightarrow> heap \<times> Conn \<Rightarrow> (error option \<times> heap \<times> Conn) go" where
  "replconfAck up view offset = (\<lambda>(h, p).
     let (req, h1) = NewOutgoingCommand [''replconf'', ''ack'', FormatInt offset] h
     in go_bind (RoundTrip req (h1, p)) (\<lambda>((msg, err), h2, p2).
          if err \<noteq> None then Ret (err, h2, p2)
          else if ToUpper up (vStr (view msg)) = ''PING'' then
            let (pong, h3) = NewOutgoingCommand [''PONG''] h2
            in go_bind (Conn_Write pong (h3, p2)) (\<lambda>((n, err), st). Ret (err, st))
          else Ret (None, h2, p2)))"

subsection \<open>The stream\<close>

text \<open>One message of the stream. The first \<open>option\<close> of the result is the error the loop returns with.\<close>

definition full_resync :: "string list \<Rightarrow> Subscriber \<Rightarrow> (error option \<times> Subscriber) go" where
  "full_resync split s =
     (if length split < 2 then Panic ''index out of range''
      else let s1 = s\<lparr>sReplicationID := Some (split ! 1)\<rparr> in
        if length split < 3 then Panic ''index out of range''
        else case ParseInt (split ! 2) of
          Inl err \<Rightarrow> Ret (Some err, s1)
        | Inr offset \<Rightarrow> go_bind (Broadcast (s1\<lparr>sOffset := offset\<rparr>)) (\<lambda>s2. Ret (None, s2)))"

definition stream_step :: "(message \<Rightarrow> msg_view) \<Rightarrow> (message \<Rightarrow> 's \<Rightarrow> (error option \<times> 's) go) \<Rightarrow> message \<Rightarrow> Subscriber \<times> 's \<Rightarrow>
    (error option \<times> Subscriber \<times> 's) go" where
  "stream_step view msgFunc read = (\<lambda>(s, x).
     let add = (\<lambda>s x. Ret (None, s\<lparr>sOffset := wrap64 (sOffset s + vSize (view read))\<rparr>, x)) in
     if msgKind read = kSimpleString then
       let split = Split (msgSimpleString read) '' '' in
       if split ! 0 = ''FULLRESYNC'' then
         go_bind (full_resync split s) (\<lambda>(err, s'). if err \<noteq> None then Ret (err, s', x) else add s' x)
       else add s x
     else if msgKind read = kArray then
       (case vArray0 (view read) of
          None \<Rightarrow> Panic ''index out of range''
        | Some str \<Rightarrow>
            if str \<noteq> ''PING'' then
              go_bind (msgFunc read x) (\<lambda>(err, x'). if err \<noteq> None then Ret (err, s, x') else add s x')
            else add s x)
     else if vIndicator (view read) = kError then Ret (Some (Errorf ''%s'' []), s, x)
     else add s x)"

text \<open>One entry of \<open>alive\<close> per check of the context, which has ended when the list is used up.\<close>

fun stream_loop :: "(message \<Rightarrow> msg_view) \<Rightarrow> (message \<Rightarrow> 's \<Rightarrow> (error option \<times> 's) go) \<Rightarrow> unit list \<Rightarrow> heap \<times> Conn \<times> Subscriber \<times> 's \<Rightarrow>
    (error option \<times> heap \<times> Conn \<times> Subscriber \<times> 's) go" where
  "stream_loop view msgFunc [] st = Ret (None, st)"
| "stream_loop view msgFunc (a # alive) (h, p, s, x) =
     go_bind (Conn_Read (h, p)) (\<lambda>((read, err), h1, p1).
       case err of
         Some e \<Rightarrow> Ret (Some (Errorf ''%w reading message'' [e]), h1, p1, s, x)
       | None \<Rightarrow> go_bind (stream_step view msgFunc read (s, x)) (\<lambda>(err, s', x').
           if err \<noteq> None then Ret (err, h1, p1, s', x')
           else stream_loop view msgFunc alive (h1, p1, s', x')))"

text \<open>
  The offset the deferred acknowledgement sends is evaluated where it is deferred, before the loop. The acknowledgements
  a second goroutine sends every 900 milliseconds are steps of \<open>Transact\<close>.
\<close>

definition StreamUpdates :: "(string \<Rightarrow> string) \<Rightarrow> (message \<Rightarrow> msg_view) \<Rightarrow> (message \<Rightarrow> 's \<Rightarrow> (error option \<times> 's) go) \<Rightarrow>
    error + (rid \<times> writer) \<Rightarrow> unit list \<Rightarrow> heap \<times> Subscriber \<times> 's \<Rightarrow> (error option \<times> heap \<times> Conn option \<times> Subscriber \<times> 's) go" where
  "StreamUpdates up view msgFunc dial alive = (\<lambda>(h, s, x).
     let s1 = (if sReplicationID s = None then s\<lparr>sReplicationID := Some []\<rparr> else s) in
     if sDidSignal s1 then Ret (Some (Errorf ''attempting to reuse a subscriber, which is not allowed'' []), h, None, s1, x)
     else go_bind (startReplication dial s1 (the (sReplicationID s1)) (sOffset s1) False h) (\<lambda>(err2, h1, p).
       if err2 \<noteq> None then Ret (err2, h1, p, s1, x)
       else let offset = sOffset s1 in
         go_bind (stream_loop view msgFunc alive (h1, the p, s1, x)) (\<lambda>(err, h2, p2, s2, x2).
           go_bind (replconfAck up view offset (h2, p2)) (\<lambda>(_, h3, p3). Ret (err, h3, Some p3, s2, x2)))))"

text \<open>
  \<open>Snapshot\<close> returns a reader or an error. Its loop looks at the indicator of each message but does nothing with it, and after
  the loop there is no return statement: what a call gives that gets there is the parameter \<open>fallen\<close>.
\<close>

fun snapshot_loop :: "rid option \<times> error option \<Rightarrow> unit list \<Rightarrow> heap \<times> Conn \<Rightarrow> ((rid option \<times> error option) \<times> heap \<times> Conn) go" where
  "snapshot_loop fallen [] st = Ret (fallen, st)"
| "snapshot_loop fallen (a # alive) st =
     go_bind (Conn_Read st) (\<lambda>((read, err), st').
       if err \<noteq> None then Ret ((None, err), st') else snapshot_loop fallen alive st')"

definition Snapshot :: "rid option \<times> error option \<Rightarrow> error + (rid \<times> writer) \<Rightarrow> unit list \<Rightarrow> Subscriber \<Rightarrow> heap \<Rightarrow>
    ((rid option \<times> error option) \<times> heap) go" where
  "Snapshot fallen dial alive s h =
     go_bind (startReplication dial s ''?'' 0 True h) (\<lambda>(err, h1, p).
       if err \<noteq> None then Ret ((None, err), h1)
       else go_bind (snapshot_loop fallen alive (h1, the p)) (\<lambda>(r, h2, p2). Ret (r, h2)))"

text \<open>No path of its own ever gives a snapshot.\<close>

lemma snapshot_loop_result: "snapshot_loop fallen alive st = Ret (r, st') \<Longrightarrow> r = fallen \<or> fst r = None \<and> snd r \<noteq> None"
  by (induction fallen alive st rule: snapshot_loop.induct) (auto simp: go_bind_Ret_iff split: if_splits)

lemma Snapshot_gives_no_reader:
  assumes "Snapshot fallen dial alive s h = Ret (r, h')"
  shows "r = fallen \<or> fst r = None \<and> snd r \<noteq> None"
  using assms snapshot_loop_result by (fastforce simp: Snapshot_def go_bind_Ret_iff split: if_splits)

subsection \<open>The signal is given once\<close>

datatype signal_call = CallBroadcast | CallStartedCh

fun signal_calls :: "signal_call list \<Rightarrow> Subscriber \<Rightarrow> Subscriber go" where
  "signal_calls [] s = Ret s"
| "signal_calls (CallBroadcast # cs) s = go_bind (Broadcast s) (signal_calls cs)"
| "signal_calls (CallStartedCh # cs) s = signal_calls cs (snd (ReplicationStartedCh s))"

text \<open>The flags agree, and exactly the channel of a given signal is closed.\<close>

definition signal_inv :: "Subscriber \<Rightarrow> bool" where
  "signal_inv s \<longleftrightarrow> sDidSignal s = sOnce s \<and> (sOnce s \<longrightarrow> sCh s \<noteq> None) \<and>
     sClosed s = (if sOnce s then [the (sCh s)] else [])"

lemma signal_inv_make: "signal_inv s \<Longrightarrow> signal_inv (make_ch s) \<and> sCh (make_ch s) \<noteq> None \<and> sOnce (make_ch s) = sOnce s \<and>
    (sCh s \<noteq> None \<longrightarrow> make_ch s = s)"
  by (auto simp: signal_inv_def make_ch_def)

lemma Broadcast_inv:
  assumes "signal_inv s"
  obtains s' where "Broadcast s = Ret s'" "signal_inv s'" "sOnce s'" "sCh s' = sCh (make_ch s)"
    "sOffset s' = sOffset s" "sReplicationID s' = sReplicationID s"
proof (cases "sOnce s")
  case True
  then have "make_ch s = s" "Broadcast s = Ret s" using assms by (auto simp: signal_inv_def Broadcast_def make_ch_def)
  then show thesis using that [of s] True assms by simp
next
  case False
  let ?s = "(make_ch s)\<lparr>sOnce := True, sClosed := [the (sCh (make_ch s))], sDidSignal := True\<rparr>"
  have "sClosed (make_ch s) = []" "sOnce (make_ch s) = False" "\<exists>c. sCh (make_ch s) = Some c"
    using assms False by (auto simp: signal_inv_def make_ch_def)
  then have "Broadcast s = Ret ?s" by (auto simp: Broadcast_def close_ch_def Let_def)
  moreover have "signal_inv ?s" "sOffset ?s = sOffset s" "sReplicationID ?s = sReplicationID s"
    by (simp_all add: signal_inv_def make_ch_def)
  ultimately show thesis using that [of ?s] by simp
qed

lemma signal_calls_inv:
  "signal_inv s \<Longrightarrow> \<exists>s'. signal_calls cs s = Ret s' \<and> signal_inv s' \<and> (sCh s \<noteq> None \<longrightarrow> sCh s' = sCh s) \<and>
     (sOnce s' \<longleftrightarrow> sOnce s \<or> CallBroadcast \<in> set cs)"
proof (induction cs arbitrary: s)
  case (Cons c cs)
  note mk = signal_inv_make [OF Cons.prems]
  show ?case
  proof (cases c)
    case CallBroadcast
    obtain s1 where s1: "Broadcast s = Ret s1" "signal_inv s1" "sOnce s1" "sCh s1 = sCh (make_ch s)"
      by (rule Broadcast_inv [OF Cons.prems]) simp
    with Cons.IH [OF s1(2)] mk CallBroadcast show ?thesis by auto
  next
    case CallStartedCh
    with Cons.IH [of "make_ch s"] mk show ?thesis by (auto simp: ReplicationStartedCh_def)
  qed
qed simp

lemma signal_calls_ch:
  assumes "signal_inv s" "signal_calls cs s = Ret s1" "cs \<noteq> []"
  shows "sCh s1 \<noteq> None"
proof -
  obtain c cs' where cs: "cs = c # cs'" using assms(3) by (cases cs) auto
  note mk = signal_inv_make [OF assms(1)]
  obtain s0 where s0: "signal_inv s0" "sCh s0 \<noteq> None" "signal_calls cs s = signal_calls cs' s0"
  proof (cases c)
    case CallBroadcast
    obtain s0 where "Broadcast s = Ret s0" "signal_inv s0" "sCh s0 = sCh (make_ch s)"
      by (rule Broadcast_inv [OF assms(1)]) simp
    then show thesis using that [of s0] mk cs CallBroadcast by simp
  next
    case CallStartedCh
    then show thesis using that [of "make_ch s"] mk cs by (simp add: ReplicationStartedCh_def)
  qed
  then show ?thesis using assms(2) signal_calls_inv [OF s0(1), of cs'] by auto
qed

subsection \<open>The handshake\<close>

text \<open>A command built on a heap stands for its wire form on every later heap that keeps its readers.\<close>

lemma NewOutgoingCommand_frame:
  "NewOutgoingCommand args h = (m, h') \<Longrightarrow> same_outside (brk h) (brk h') h h' \<and> brk h \<le> brk h'"
  using NewBulkStrings_repr [of args h] by (auto simp: NewOutgoingCommand_def split: prod.splits)

abbreviation request :: "string list \<Rightarrow> resp" where
  "request args \<equiv> RArray (map RBulk args)"

lemma RoundTrip_frame:
  assumes "repr h v m a b" "clean_conn c"
  obtains err h' c' where "RoundTrip m (h, c) = Ret ((zero_msg, err), h', c')" "clean_conn c'" "cReader c' = cReader c"
    "out (cPeer c') = out (cPeer c) @ wire v" "\<forall>x y. cReader c < x \<longrightarrow> y \<le> brk h \<longrightarrow> y \<le> a \<or> b \<le> x \<longrightarrow> same_inside x y h h'" "brk h \<le> brk h'"
proof -
  obtain err h1 h' c' where r: "RoundTrip m (h, c) = Ret ((zero_msg, err), h', c')" "clean_conn c'" "cReader c' = cReader c"
    "out (cPeer c') = out (cPeer c) @ wire v" and f: "same_outside a b h h1" "brk h \<le> brk h1" "kept_above (cReader c) h1 h'"
    by (rule RoundTrip_clean [OF assms(1,2)]) simp
  have "same_inside x y h h'" if "cReader c < x" "y \<le> brk h" "y \<le> a \<or> b \<le> x" for x y
    using that f by (auto simp: same_inside_def same_outside_def kept_above_def)
  moreover have "brk h \<le> brk h'" using f by (simp add: kept_above_def)
  ultimately show thesis using that r by blast
qed

text \<open>The three requests of the handshake, in the order they are sent.\<close>

definition handshake :: "string \<Rightarrow> string \<Rightarrow> string \<Rightarrow> int \<Rightarrow> bool \<Rightarrow> resp list" where
  "handshake host port replicationID offset snapshotOnly =
     [request [''PING''],
      request ([''REPLCONF'', ''listening-port'', port, ''ip-address'', host, ''capa'', ''psync2''] @
        (if snapshotOnly then [''snapshot-only'', ''1''] else [])),
      request [''PSYNC'', replicationID, FormatInt offset]]"

definition sent_first :: "nat \<Rightarrow> writer \<Rightarrow> Conn \<Rightarrow> resp list \<Rightarrow> bool" where
  "sent_first n peer p reqs \<longleftrightarrow> out (cPeer p) = out peer @ concat (map wire (take n reqs)) \<and> \<not> cLocked p"

lemma startReplication_sends:
  assumes "SplitHostPort (MyAddr s) = Inr (host, port)" "room peer = None" "r < brk h"
  shows "\<exists>err h' p n. startReplication (Inr (r, peer)) s replicationID offset snapshotOnly h = Ret (err, h', Some p) \<and>
    n \<in> {1, 2, 3} \<and> (err = None \<longrightarrow> n = 3) \<and> sent_first n peer p (handshake host port replicationID offset snapshotOnly)"
proof -
  let ?capa = "[''REPLCONF'', ''listening-port'', port, ''ip-address'', host, ''capa'', ''psync2''] @
      (if snapshotOnly then [''snapshot-only'', ''1''] else [])" and ?psync = "[''PSYNC'', replicationID, FormatInt offset]"
  obtain ping h1 where m1: "NewOutgoingCommand [''PING''] h = (ping, h1)" by fastforce
  obtain psync h2 where m2: "NewOutgoingCommand ?psync h1 = (psync, h2)" by fastforce
  obtain capa h3 where m3: "NewOutgoingCommand ?capa h2 = (capa, h3)" by fastforce
  note fr = NewOutgoingCommand_frame [OF m1] NewOutgoingCommand_frame [OF m2] NewOutgoingCommand_frame [OF m3]
  have "same_inside (brk h) (brk h1) h1 h3" "same_inside (brk h1) (brk h2) h2 h3"
    using fr by (simp_all add: same_inside_def same_outside_def)
  then have r1: "repr h3 (request [''PING'']) ping (brk h) (brk h1)" and r2: "repr h3 (request ?psync) psync (brk h1) (brk h2)"
    using repr_heap_both(1) [OF NewOutgoingCommand_repr [OF m1]] repr_heap_both(1) [OF NewOutgoingCommand_repr [OF m2]] by blast+
  have r3: "repr h3 (request ?capa) capa (brk h2) (brk h3)" by (rule NewOutgoingCommand_repr [OF m3])
  let ?p = "NewConnection r peer"
  have rd: "cReader ?p = r" "out (cPeer ?p) = out peer" by (simp_all add: NewConnection_def)
  obtain e4 h4 p4 where t1: "RoundTrip ping (h3, ?p) = Ret ((zero_msg, e4), h4, p4)" "clean_conn p4" "cReader p4 = r"
      "out (cPeer p4) = out peer @ wire (request [''PING''])"
    and k4: "\<forall>x y. r < x \<longrightarrow> y \<le> brk h3 \<longrightarrow> y \<le> brk h \<or> brk h1 \<le> x \<longrightarrow> same_inside x y h3 h4" "brk h3 \<le> brk h4"
    by (rule RoundTrip_frame [OF r1 clean_NewConnection [OF assms(2), of r]]) (simp add: rd)
  have r3': "repr h4 (request ?capa) capa (brk h2) (brk h3)" and r2': "repr h4 (request ?psync) psync (brk h1) (brk h2)"
    using k4(1) fr assms(3) repr_heap_both(1) [OF r3, of h4] repr_heap_both(1) [OF r2, of h4] by auto
  obtain e5 h5 p5 where t2: "RoundTrip capa (h4, p4) = Ret ((zero_msg, e5), h5, p5)" "clean_conn p5" "cReader p5 = r"
      "out (cPeer p5) = out (cPeer p4) @ wire (request ?capa)"
    and k5: "\<forall>x y. r < x \<longrightarrow> y \<le> brk h4 \<longrightarrow> y \<le> brk h2 \<or> brk h3 \<le> x \<longrightarrow> same_inside x y h4 h5" "brk h4 \<le> brk h5"
    by (rule RoundTrip_frame [OF r3' t1(2)]) (simp add: t1(3))
  have r2'': "repr h5 (request ?psync) psync (brk h1) (brk h2)"
    using k5(1) k4(2) fr assms(3) repr_heap_both(1) [OF r2', of h5] by auto
  obtain e6 h6 p6 where t3: "RoundTrip psync (h5, p5) = Ret ((zero_msg, e6), h6, p6)" "clean_conn p6"
      "out (cPeer p6) = out (cPeer p5) @ wire (request ?psync)"
    by (rule RoundTrip_frame [OF r2'' t2(2)]) simp
  have eq: "startReplication (Inr (r, peer)) s replicationID offset snapshotOnly h =
      (if e4 \<noteq> None then Ret (e4, h4, Some p4) else if e5 \<noteq> None then Ret (e5, h5, Some p5) else Ret (e6, h6, Some p6))"
    unfolding startReplication_def using assms(1) m1 m2 m3 t1(1) t2(1) t3(1) by (auto simp: Let_def)
  have "sent_first 1 peer p4 (handshake host port replicationID offset snapshotOnly)"
    "sent_first 2 peer p5 (handshake host port replicationID offset snapshotOnly)"
    "sent_first 3 peer p6 (handshake host port replicationID offset snapshotOnly)"
    using t1 t2 t3 by (simp_all add: sent_first_def handshake_def clean_conn_def numeral_eq_Suc)
  then show ?thesis unfolding eq by (cases e4; cases e5; force)
qed

subsection \<open>Properties\<close>

abbreviation a_subscriber :: Subscriber where
  "a_subscriber \<equiv> \<lparr>LeaderAddr = ''r:1'', MyAddr = ''h:7'', sOffset = 0, sReplicationID = None, sCh = None, sOnce = False,
     sDidSignal = False, sMade = 0, sClosed = []\<rparr>"

text \<open>
  C35. The start signal is safe and given once. However \<open>Broadcast\<close> and \<open>ReplicationStartedCh\<close> are called on a subscriber
  with a fresh signal, no call closes a closed or nil channel, every call after the first works on the same channel,
  and at the end that channel is closed, and the subscriber marked as used, exactly if \<open>Broadcast\<close> was called.
\<close>

theorem signal_given_once:
  assumes "sCh s = None" "\<not> sOnce s" "\<not> sDidSignal s" "sClosed s = []"
  shows "\<exists>s1 s2. signal_calls cs s = Ret s1 \<and> signal_calls ds s1 = Ret s2 \<and> (cs \<noteq> [] \<longrightarrow> sCh s1 \<noteq> None \<and> sCh s2 = sCh s1) \<and>
    (sDidSignal s2 \<longleftrightarrow> CallBroadcast \<in> set (cs @ ds)) \<and>
    sClosed s2 = (if CallBroadcast \<in> set (cs @ ds) then [the (sCh s2)] else [])"
proof -
  have inv: "signal_inv s" using assms by (simp add: signal_inv_def)
  obtain s1 where s1: "signal_calls cs s = Ret s1" "signal_inv s1" "sOnce s1 \<longleftrightarrow> CallBroadcast \<in> set cs"
    using signal_calls_inv [OF inv, of cs] assms(2) by auto
  obtain s2 where s2: "signal_calls ds s1 = Ret s2" "signal_inv s2" "sCh s1 \<noteq> None \<longrightarrow> sCh s2 = sCh s1"
      "sOnce s2 \<longleftrightarrow> sOnce s1 \<or> CallBroadcast \<in> set ds"
    using signal_calls_inv [OF s1(2), of ds] by blast
  have ch: "cs \<noteq> [] \<longrightarrow> sCh s1 \<noteq> None \<and> sCh s2 = sCh s1" using signal_calls_ch [OF inv s1(1)] s2(3) by blast
  have once: "sOnce s2 \<longleftrightarrow> CallBroadcast \<in> set (cs @ ds)" using s1(3) s2(4) by simp
  have "sDidSignal s2 = sOnce s2" "sClosed s2 = (if sOnce s2 then [the (sCh s2)] else [])"
    using s2(2) by (simp_all only: signal_inv_def)
  with s1(1) s2(1) ch once show ?thesis by metis
qed

theorem signal_given_once_witness:
  "\<exists>s1 s2. signal_calls [CallStartedCh] a_subscriber = Ret s1 \<and> signal_calls [CallBroadcast, CallBroadcast] s1 = Ret s2 \<and>
     sDidSignal s2 \<and> sCh s2 = sCh s1"
proof -
  have "\<exists>s1 s2. signal_calls [CallStartedCh] a_subscriber = Ret s1 \<and> signal_calls [CallBroadcast, CallBroadcast] s1 = Ret s2 \<and>
      ([CallStartedCh] \<noteq> [] \<longrightarrow> sCh s1 \<noteq> None \<and> sCh s2 = sCh s1) \<and>
      (sDidSignal s2 \<longleftrightarrow> CallBroadcast \<in> set ([CallStartedCh] @ [CallBroadcast, CallBroadcast])) \<and>
      sClosed s2 = (if CallBroadcast \<in> set ([CallStartedCh] @ [CallBroadcast, CallBroadcast]) then [the (sCh s2)] else [])"
    by (rule signal_given_once) simp_all
  then show ?thesis by (simp del: signal_calls.simps) blast
qed

text \<open>
  C34. A full resynchronisation takes the subscriber to the announced point: on the line \<^verbatim>\<open>FULLRESYNC id offset\<close> the
  identifier is stored, and if the offset is a number it becomes the new offset, to which the size of the line is
  added with 64-bit wrap-around, and the start signal is given; if it is not, the loop ends with the error of the
  number but keeps the new identifier with the old offset. A line with fewer fields panics.
\<close>

theorem full_resync_line:
  assumes "msgKind m = kSimpleString" "signal_inv s" "CHR '' '' \<notin> set rid" "CHR '' '' \<notin> set off"
  shows "(msgSimpleString m = ''FULLRESYNC '' @ rid @ '' '' @ off \<longrightarrow>
      (case ParseInt off of
         Inl err \<Rightarrow> stream_step view msgFunc m (s, x) = Ret (Some err, s\<lparr>sReplicationID := Some rid\<rparr>, x)
       | Inr i \<Rightarrow> \<exists>s'. stream_step view msgFunc m (s, x) = Ret (None, s', x) \<and> sReplicationID s' = Some rid \<and>
           sOffset s' = wrap64 (i + vSize (view m)) \<and> sDidSignal s')) \<and>
    (msgSimpleString m = ''FULLRESYNC'' \<or> msgSimpleString m = ''FULLRESYNC '' @ rid \<longrightarrow>
      stream_step view msgFunc m (s, x) = Panic ''index out of range'')"
proof (intro conjI impI)
  let ?k = "''FULLRESYNC''"
  have k: "CHR '' '' \<notin> set ?k" by simp
  have "Split (?k @ CHR '' '' # rid) '' '' = [?k, rid]"
    using Split_char [OF k] Split_last [OF assms(3)] by simp
  moreover have "Split ?k '' '' = [?k]" using Split_last [OF k] by simp
  ultimately show "stream_step view msgFunc m (s, x) = Panic ''index out of range''"
    if "msgSimpleString m = ?k \<or> msgSimpleString m = ''FULLRESYNC '' @ rid"
    using that assms(1) by (auto simp: stream_step_def full_resync_def)
  assume msg: "msgSimpleString m = ''FULLRESYNC '' @ rid @ '' '' @ off"
  have "Split (?k @ CHR '' '' # rid @ CHR '' '' # off) '' '' = [?k, rid, off]"
    using Split_char [OF k] Split_char [OF assms(3)] Split_last [OF assms(4)] by simp
  then have step: "stream_step view msgFunc m (s, x) =
      go_bind (full_resync [?k, rid, off] s) (\<lambda>(err, s'). if err \<noteq> None then Ret (err, s', x)
        else Ret (None, s'\<lparr>sOffset := wrap64 (sOffset s' + vSize (view m))\<rparr>, x))"
    using msg assms(1) by (simp add: stream_step_def)
  show "case ParseInt off of
      Inl err \<Rightarrow> stream_step view msgFunc m (s, x) = Ret (Some err, s\<lparr>sReplicationID := Some rid\<rparr>, x)
    | Inr i \<Rightarrow> \<exists>s'. stream_step view msgFunc m (s, x) = Ret (None, s', x) \<and> sReplicationID s' = Some rid \<and>
        sOffset s' = wrap64 (i + vSize (view m)) \<and> sDidSignal s'"
  proof (cases "ParseInt off")
    case (Inl err)
    then show ?thesis by (simp add: step full_resync_def)
  next
    case (Inr i)
    have inv: "signal_inv (s\<lparr>sReplicationID := Some rid, sOffset := i\<rparr>)" using assms(2) by (simp add: signal_inv_def)
    obtain s' where "Broadcast (s\<lparr>sReplicationID := Some rid, sOffset := i\<rparr>) = Ret s'" "signal_inv s'" "sOnce s'"
      "sOffset s' = i" "sReplicationID s' = Some rid"
      by (rule Broadcast_inv [OF inv]) simp
    then show ?thesis using Inr by (simp add: step full_resync_def signal_inv_def)
  qed
qed

theorem full_resync_line_witness:
  "\<exists>s'. stream_step (\<lambda>m. \<lparr>vArray0 = None, vIndicator = kSimpleString, vStr = [], vSize = 20\<rparr>) (\<lambda>m x. Ret (None, x))
      (SimpleString ''FULLRESYNC ab 5'') (a_subscriber, ()) = Ret (None, s', ()) \<and>
    sReplicationID s' = Some ''ab'' \<and> sOffset s' = 25 \<and> sDidSignal s'"
proof -
  let ?view = "\<lambda>m. \<lparr>vArray0 = None, vIndicator = kSimpleString, vStr = [], vSize = 20\<rparr>" and ?m = "SimpleString ''FULLRESYNC ab 5''"
  have "FormatInt 5 = ''5''" by code_simp
  then have p: "ParseInt ''5'' = Inr 5" using ParseInt_FormatInt [of 5] by (simp add: int64_def)
  have w: "wrap64 (5 + 20) = 25" by (simp add: wrap64_def)
  have m: "msgKind ?m = kSimpleString" "msgSimpleString ?m = ''FULLRESYNC '' @ ''ab'' @ '' '' @ ''5''"
    by (simp_all add: SimpleString_def)
  have inv: "signal_inv a_subscriber" by (simp add: signal_inv_def)
  have sp: "CHR '' '' \<notin> set ''ab''" "CHR '' '' \<notin> set ''5''" by simp_all
  from full_resync_line [OF m(1) inv sp, of ?view "\<lambda>m x. Ret (None, x)" "()", THEN conjunct1, rule_format, OF m(2)]
  show ?thesis unfolding p by (simp only: sum.case msg_view.simps w)
qed

text \<open>
  C33. The handshake with the leader. Over a peer that takes every byte and whose stream ends after its answers,
  \<open>startReplication\<close> returns, the peer has received a prefix of the three requests PING, REPLCONF and PSYNC in this order and
  nothing else, each in its wire form, and all three if there is no error; the connection's lock is free.
\<close>

theorem handshake_in_order:
  assumes "SplitHostPort (MyAddr s) = Inr (host, port)" "room peer = None" "r < brk h"
  shows "\<exists>err h' p n. startReplication (Inr (r, peer)) s replicationID offset snapshotOnly h = Ret (err, h', Some p) \<and>
    n \<in> {1, 2, 3} \<and> (err = None \<longrightarrow> n = 3) \<and> \<not> cLocked p \<and>
    out (cPeer p) = out peer @ concat (map wire (take n (handshake host port replicationID offset snapshotOnly)))"
  using startReplication_sends [OF assms, of replicationID offset snapshotOnly] unfolding sent_first_def by blast

theorem handshake_in_order_witness:
  "\<exists>err h' p n. startReplication (Inr (0, buffer)) a_subscriber ''?'' 0 False (one_reader [''+PONG'' @ EOL]) = Ret (err, h', Some p) \<and>
     n \<in> {1, 2, 3} \<and> out (cPeer p) = concat (map wire (take n (handshake ''h'' ''7'' ''?'' 0 False)))"
proof -
  have a: "SplitHostPort (MyAddr a_subscriber) = Inr (''h'', ''7'')"
    using SplitHostPort_plain [of "''h''" "''7''"] by simp
  have "0 < brk (one_reader [''+PONG'' @ EOL])" by (simp add: one_reader_def)
  from handshake_in_order [OF a, of buffer 0 "one_reader [''+PONG'' @ EOL]" "''?''" 0 False, OF _ this]
  show ?thesis by auto
qed

lemma stream_step_zero:
  "\<exists>err s'. stream_step view msgFunc zero_msg (s, x) = Ret (err, s', x) \<and> sReplicationID s' = sReplicationID s \<and>
     sDidSignal s' = sDidSignal s"
  by (auto simp: stream_step_def zero_msg_def kind_msg_def kind_defs)

lemma stream_loop_nothing:
  "\<not> cLocked p \<Longrightarrow> \<exists>err h' s'. stream_loop view msgFunc alive (h, p, s, x) = Ret (err, h', p, s', x) \<and>
     sReplicationID s' = sReplicationID s \<and> sDidSignal s' = sDidSignal s"
proof (induction alive arbitrary: h s)
  case (Cons a alive)
  obtain e h1 where r: "Conn_Read (h, p) = Ret ((zero_msg, e), h1, p)" using Conn_Read_zero [OF Cons.prems] by blast
  show ?case
  proof (cases e)
    case None
    obtain e2 s1 where st: "stream_step view msgFunc zero_msg (s, x) = Ret (e2, s1, x)"
      "sReplicationID s1 = sReplicationID s" "sDidSignal s1 = sDidSignal s"
      using stream_step_zero [of view msgFunc s x] by blast
    show ?thesis using r None st Cons.IH [OF Cons.prems, of h1 s1] by (cases e2) auto
  qed (use r in auto)
qed simp

lemma startReplication_free:
  "startReplication dial s i n b h = Ret (None, h', q) \<Longrightarrow> \<exists>p. q = Some p \<and> \<not> cLocked p"
  by (auto simp: startReplication_def Let_def go_bind_Ret_iff split: sum.splits prod.splits if_splits dest: rt.releases)

text \<open>
  The stream delivers nothing. Reading from any free connection, the loop returns for every number of rounds, and
  neither calls the callback nor stores an identifier nor gives the start signal; so whenever \<open>StreamUpdates\<close> returns,
  the callback has not been called and the signal is as it was.
\<close>

theorem stream_delivers_nothing:
  "(\<not> cLocked p \<longrightarrow> (\<exists>err h' s'. stream_loop view msgFunc alive (h, p, s, x) = Ret (err, h', p, s', x) \<and>
      sReplicationID s' = sReplicationID s \<and> sDidSignal s' = sDidSignal s)) \<and>
   (\<forall>err h' q s' x'. StreamUpdates up view msgFunc dial alive (h, s, x) = Ret (err, h', q, s', x') \<longrightarrow>
      x' = x \<and> sDidSignal s' = sDidSignal s)"
proof (intro conjI impI allI)
  show "\<exists>err h' s'. stream_loop view msgFunc alive (h, p, s, x) = Ret (err, h', p, s', x) \<and>
      sReplicationID s' = sReplicationID s \<and> sDidSignal s' = sDidSignal s" if "\<not> cLocked p"
    by (rule stream_loop_nothing [OF that])
  fix err h' q s' x' assume ret: "StreamUpdates up view msgFunc dial alive (h, s, x) = Ret (err, h', q, s', x')"
  define s1 where "s1 = (if sReplicationID s = None then s\<lparr>sReplicationID := Some []\<rparr> else s)"
  have same: "sDidSignal s1 = sDidSignal s" by (simp add: s1_def)
  have "x' = x \<and> sDidSignal s' = sDidSignal s1"
  proof (cases "sDidSignal s1")
    case False
    then obtain e2 h1 q1 where st: "startReplication dial s1 (the (sReplicationID s1)) (sOffset s1) False h = Ret (e2, h1, q1)"
      using ret unfolding StreamUpdates_def by (auto simp: s1_def [symmetric] Let_def go_bind_Ret_iff)
    show ?thesis
    proof (cases e2)
      case None
      then obtain p1 where p1: "q1 = Some p1" "\<not> cLocked p1" using startReplication_free st by blast
      obtain e3 h2 s2 where lp: "stream_loop view msgFunc alive (h1, p1, s1, x) = Ret (e3, h2, p1, s2, x)"
        "sDidSignal s2 = sDidSignal s1"
        using stream_loop_nothing [OF p1(2), of view msgFunc alive h1 s1 x] by blast
      have "s' = s2 \<and> x' = x"
        using ret False st None p1 lp(1) unfolding StreamUpdates_def
        by (simp add: s1_def [symmetric] Let_def go_bind_Ret_iff) (auto split: prod.splits)
      then show ?thesis using lp(2) by simp
    qed (use ret False st in \<open>simp add: StreamUpdates_def s1_def [symmetric] Let_def\<close>)
  qed (use ret in \<open>simp add: StreamUpdates_def s1_def [symmetric] Let_def\<close>)
  then show "x' = x" "sDidSignal s' = sDidSignal s" using same by simp_all
qed

abbreviation plain_view :: "message \<Rightarrow> msg_view" where
  "plain_view m \<equiv> \<lparr>vArray0 = None, vIndicator = msgKind m, vStr = [], vSize = msgTotalMessageSize m\<rparr>"

theorem stream_delivers_nothing_witness:
  "\<exists>err h' s'. stream_loop plain_view (\<lambda>m n. Ret (None, Suc n)) [(), ()] (one_reader [''+OK'' @ EOL], a_conn, a_subscriber, 0) =
     Ret (err, h', a_conn, s', 0)"
proof -
  have "\<not> cLocked a_conn" by (simp add: NewConnection_def)
  with stream_delivers_nothing [of a_conn plain_view "\<lambda>m n. Ret (None, Suc n)" "[(), ()]" "one_reader [''+OK'' @ EOL]" a_subscriber 0,
      THEN conjunct1] show ?thesis by blast
qed

end
