(* ===== verification/Message_Type.thy ===== *)
theory Message_Type
  imports Codec
begin

text \<open>
  Which messages are well-formed: the kind of a message says which of its fields are used, and those must be there.
  Encoding a well-formed message cannot dereference nil and cannot index out of range.
\<close>

fun msg_ok :: "message \<Rightarrow> bool"
  and msgs_ok :: "message list \<Rightarrow> bool" where
  "msg_ok (Message k ss er i b d bn tms rl rd enc sq as) =
     (if k = kError then er \<noteq> None
      else if k \<in> {kBulkString, kBulkError, kVerbatimString} then rl \<le> 0 \<or> rd \<noteq> None
      else if k \<in> {kArray, kPush, kSet} then
        (case sq of NilSeq \<Rightarrow> False | SliceSeq ms \<Rightarrow> msgs_ok ms | IterateSeq r \<Rightarrow> True)
      else if k \<in> {kMap, kAttribute} then
        (case as of NilAssoc \<Rightarrow> False | PairsAssoc kvs \<Rightarrow> even (length kvs) \<and> msgs_ok kvs | ChunkAssoc r \<Rightarrow> True)
      else True)"
| "msgs_ok [] = True"
| "msgs_ok (m # ms) = (msg_ok m \<and> msgs_ok ms)"

lemma msgs_ok_iff: "msgs_ok ms \<longleftrightarrow> (\<forall>m \<in> set ms. msg_ok m)"
  by (induction ms) auto

text \<open>The predicate, by what a kind asks for.\<close>

lemma msg_ok_error: "msg_ok (Message k ss er i b d bn tms rl rd enc sq as) \<Longrightarrow> k = kError \<Longrightarrow> er \<noteq> None"
  by simp

lemma msg_ok_bulk:
  "k \<in> {kBulkString, kBulkError, kVerbatimString} \<Longrightarrow>
   msg_ok (Message k ss er i b d bn tms rl rd enc sq as) \<longleftrightarrow> rl \<le> 0 \<or> rd \<noteq> None"
  by (auto simp: kind_defs)

lemma msg_ok_seq:
  "k \<in> {kArray, kPush, kSet} \<Longrightarrow>
   msg_ok (Message k ss er i b d bn tms rl rd enc sq as) \<longleftrightarrow>
     (case sq of NilSeq \<Rightarrow> False | SliceSeq ms \<Rightarrow> msgs_ok ms | IterateSeq r \<Rightarrow> True)"
  by (auto simp: kind_defs)

lemma msg_ok_assoc:
  "k \<in> {kMap, kAttribute} \<Longrightarrow>
   msg_ok (Message k ss er i b d bn tms rl rd enc sq as) \<longleftrightarrow>
     (case as of NilAssoc \<Rightarrow> False | PairsAssoc kvs \<Rightarrow> even (length kvs) \<and> msgs_ok kvs | ChunkAssoc r \<Rightarrow> True)"
  by (auto simp: kind_defs)

lemma aggregate_assoc:
  "Category k \<noteq> CategorySimple \<Longrightarrow> Category k = CategoryAggregate \<Longrightarrow> k \<notin> {kBulkString, kBulkError, kVerbatimString} \<Longrightarrow>
   k \<notin> {kArray, kPush, kSet} \<Longrightarrow> k \<in> {kMap, kAttribute}"
  by (auto simp: category_defs split: if_splits)

subsection \<open>Encoding steps that return\<close>

definition enc_total :: "enc \<Rightarrow> bool" where
  "enc_total a \<longleftrightarrow> (\<forall>st. \<exists>r. a st = Ret r)"

named_theorems total

lemma total_basic [total]: "enc_total enc_skip" "enc_total (enc_fail err)" "enc_total (put p)"
  by (auto simp: enc_total_def enc_skip_def enc_fail_def put_def split: prod.split)

lemma total_then [total]:
  assumes "enc_total a" "enc_total b"
  shows "enc_total (enc_then a b)"
  unfolding enc_total_def
proof
  fix st
  obtain n err st1 where a: "a st = Ret ((n, err), st1)" using assms(1) by (metis enc_total_def surj_pair)
  obtain n' err' st2 where "b st1 = Ret ((n', err'), st2)" using assms(2) by (metis enc_total_def surj_pair)
  with a show "\<exists>r. enc_then a b st = Ret r" by (cases err) (simp_all add: enc_then_def)
qed

lemma total_if [total]: "(c \<Longrightarrow> enc_total a) \<Longrightarrow> (\<not> c \<Longrightarrow> enc_total b) \<Longrightarrow> enc_total (if c then a else b)"
  by simp

lemma total_after:
  assumes "\<And>xs. enc_total (f xs)"
  shows "enc_total (\<lambda>(h, w). case g h of (xs, h') \<Rightarrow> f xs (h', w))"
  using assms by (auto simp: enc_total_def split: prod.split)

lemma total_iterate [total]: "enc_total (encode_iterate r)"
  by (auto simp: enc_total_def encode_iterate_def enc_skip_def enc_fail_def put_def split: prod.split list.split option.split)

lemma total_chunk [total]: "enc_total (encode_chunk r)"
proof -
  have "enc_total (foldr (\<lambda>((k, v), err) after. enc_then (put [msgKind k]) (enc_then (put [msgKind v]) after)) xs enc_skip)" for xs
    by (induction xs) (auto intro!: total)
  then show ?thesis unfolding encode_chunk_def by (rule total_after)
qed

lemma total_writeBulk_loop: "enc_total (writeBulk_loop e r left tot)"
proof -
  have "\<exists>x. writeBulk_loop e r left tot (h, w) = Ret x" for h w
  proof (induction e r left tot "(h, w)" arbitrary: h w rule: writeBulk_loop.induct)
    case (1 e r left tot h w)
    show ?case
    proof (cases "left \<le> 0")
      case True
      then show ?thesis by (simp add: writeBulk_loop.simps [of e r left] put_def split: prod.split)
    next
      case False
      then obtain b where b: "emptyBuffer (ChunkSize e) left = Ret b"
        using emptyBuffer_positive [of left "ChunkSize e"] by auto
      obtain p er h1 where p: "hread r (length b) h = ((p, er), h1)" by (metis surj_pair)
      obtain n ew w1 where w1: "Write p w = ((n, ew), w1)" by (metis surj_pair)
      show ?thesis
      proof (cases "er = None \<and> ew = None")
        case True
        with "1.hyps" [OF False b p [symmetric] refl _ w1 [symmetric] refl] show ?thesis
          using False b p w1 by (simp add: writeBulk_loop.simps [of e r left])
      qed (use False b p w1 in \<open>auto simp: writeBulk_loop.simps [of e r left] split: option.splits\<close>)
    qed
  qed
  then show ?thesis by (auto simp: enc_total_def)
qed

lemma total_writeBulk: "msgRunLength m \<le> 0 \<or> msgReader m \<noteq> None \<Longrightarrow> enc_total (writeBulk e m)"
  by (auto simp: writeBulk_def total total_writeBulk_loop split: option.split)

lemma simpleToByte_total: "msgKind m \<noteq> kError \<or> msgError m \<noteq> None \<Longrightarrow> \<exists>r. simpleToByte m = Ret r"
  by (auto simp: simpleToByte_def Let_def split: option.split)

lemma total_simple:
  assumes "msgKind m \<noteq> kError \<or> msgError m \<noteq> None"
  shows "enc_total (case simpleToByte m of Ret (Inl err) \<Rightarrow> enc_fail err | Ret (Inr body) \<Rightarrow> put body
      | Panic s \<Rightarrow> enc_panic s | Blocked \<Rightarrow> (\<lambda>st. Blocked))"
  using simpleToByte_total [OF assms] by (auto simp: total split: sum.split)

lemma Encode_total_all:
  "msg_ok m \<Longrightarrow> enc_total (Encode e m)"
  "msgs_ok ms \<Longrightarrow> enc_total (encode_list e ms)"
  "even (length kvs) \<Longrightarrow> msgs_ok kvs \<Longrightarrow> enc_total (encode_pairs e kvs)"
proof (induction e m and e ms and e kvs rule: Encode_encode_list_encode_pairs.induct)
  case (1 e k ss er i b d bn tms rl rd enc sq as)
  define m where "m = Message k ss er i b d bn tms rl rd enc sq as"
  have fields: "msgKind m = k" "msgError m = er" "msgRunLength m = rl" "msgReader m = rd" by (simp_all add: m_def)
  note ok = "1.prems"
  have simple: "Category k = CategorySimple \<Longrightarrow> k \<noteq> kError \<or> er \<noteq> None"
    using ok msg_ok_error by blast
  have bulk: "k \<in> {kBulkString, kBulkError, kVerbatimString} \<Longrightarrow> enc_total (writeBulk e m)"
    using ok msg_ok_bulk fields by (intro total_writeBulk) metis
  have seq: "enc_total (case sq of NilSeq \<Rightarrow> enc_panic ''nil pointer dereference'' | SliceSeq ms \<Rightarrow> encode_list e ms
      | IterateSeq r \<Rightarrow> encode_iterate r)"
    if c: "Category k \<noteq> CategorySimple" "Category k = CategoryAggregate"
      "k \<notin> {kBulkString, kBulkError, kVerbatimString}" "k \<in> {kArray, kPush, kSet}"
    using msg_ok_seq [OF c(4), THEN iffD1, OF ok] "1.IH"(1) [OF refl c] by (cases sq) (auto simp: total)
  have assoc: "enc_total (case as of NilAssoc \<Rightarrow> enc_panic ''nil pointer dereference'' | PairsAssoc kvs \<Rightarrow> encode_pairs e kvs
      | ChunkAssoc r \<Rightarrow> encode_chunk r)"
    if c: "Category k \<noteq> CategorySimple" "Category k = CategoryAggregate"
      "k \<notin> {kBulkString, kBulkError, kVerbatimString}" "k \<notin> {kArray, kPush, kSet}"
  proof -
    have "k \<in> {kMap, kAttribute}" using c by (rule aggregate_assoc)
    from msg_ok_assoc [OF this, THEN iffD1, OF ok] show ?thesis
      using "1.IH"(2) [OF refl c] by (cases as) (auto simp: total)
  qed
  show ?case
    unfolding Encode.simps Let_def unfolding m_def [symmetric]
    by (intro total total_simple bulk seq assoc) (use simple fields in \<open>simp_all only: simp_thms\<close>)
qed (simp_all add: total)

subsection \<open>Messages that are well-formed\<close>

lemma msg_ok_constructors:
  "msg_ok (SimpleString s)" "msg_ok (Error s)" "msg_ok (Int_msg i)" "msg_ok Null" "msg_ok (Bool b)" "msg_ok (Double f)"
  "msg_ok (BigNumber n)" "msg_ok (BulkString r l)" "msg_ok (BulkError r l)" "msg_ok (VerbatimString r l enc)"
  "msg_ok (Array ms) = msgs_ok ms" "msg_ok (Set ms) = msgs_ok ms" "msg_ok zero_msg"
  by (simp_all add: message_defs kind_defs)

lemma msg_ok_Map: "Map kvs = Ret m \<Longrightarrow> msg_ok m = msgs_ok kvs"
  by (auto simp: Map_def kind_defs even_iff_mod_2_eq_zero split: if_splits)

lemma repr_ok: "repr h v m a b \<Longrightarrow> msg_ok m" and reprs_ok: "reprs h vs ms a b \<Longrightarrow> msgs_ok ms"
  by (induction rule: repr_reprs.inducts) (auto simp: msg_ok_constructors msg_ok_Map simp del: msg_ok.simps)

text \<open>A field that the kind asks for is nil.\<close>

definition field_missing :: "message \<Rightarrow> bool" where
  "field_missing m \<longleftrightarrow>
     msgKind m = kError \<and> msgError m = None \<or>
     msgKind m \<in> {kBulkString, kBulkError, kVerbatimString} \<and> 0 < msgRunLength m \<and> msgReader m = None \<or>
     msgKind m \<in> {kArray, kPush, kSet} \<and> msgSeq m = NilSeq \<or>
     msgKind m \<in> {kMap, kAttribute} \<and> msgAssoc m = NilAssoc"

text \<open>Steps that pass, and steps that panic, on a writer that takes every byte.\<close>

definition enc_passes :: "enc \<Rightarrow> bool" where
  "enc_passes a \<longleftrightarrow> (\<forall>h w. room w = None \<longrightarrow> (\<exists>n h' w'. a (h, w) = Ret ((n, None), (h', w')) \<and> room w' = None))"

definition enc_panics :: "enc \<Rightarrow> bool" where
  "enc_panics a \<longleftrightarrow> (\<forall>h w. room w = None \<longrightarrow> (\<exists>s. a (h, w) = Panic s))"

lemma passes_basic: "enc_passes (put p)" "enc_passes enc_skip"
  by (auto simp: enc_passes_def put_def Write_unbounded enc_skip_def)

lemma passes_then:
  assumes "enc_passes a" "enc_passes b"
  shows "enc_passes (enc_then a b)"
  unfolding enc_passes_def
proof (intro allI impI)
  fix h and w :: writer assume "room w = None"
  then obtain n h1 w1 where a: "a (h, w) = Ret ((n, None), (h1, w1))" "room w1 = None"
    using assms(1) unfolding enc_passes_def by blast
  then obtain n2 h2 w2 where "b (h1, w1) = Ret ((n2, None), (h2, w2))" "room w2 = None"
    using assms(2) unfolding enc_passes_def by blast
  with a show "\<exists>n h' w'. enc_then a b (h, w) = Ret ((n, None), (h', w')) \<and> room w' = None" by (simp add: enc_then_def)
qed

lemma panics_then:
  assumes "enc_passes a" "enc_panics b"
  shows "enc_panics (enc_then a b)"
  unfolding enc_panics_def
proof (intro allI impI)
  fix h and w :: writer assume "room w = None"
  then obtain n h1 w1 where a: "a (h, w) = Ret ((n, None), (h1, w1))" "room w1 = None"
    using assms(1) unfolding enc_passes_def by blast
  then obtain s where "b (h1, w1) = Panic s" using assms(2) unfolding enc_panics_def by blast
  with a show "\<exists>s. enc_then a b (h, w) = Panic s" by (simp add: enc_then_def)
qed

lemma panics_panic: "enc_panics (enc_panic s)"
  by (simp add: enc_panics_def enc_panic_def)

lemmas panics_intros = panics_then panics_panic passes_basic passes_then

lemma Encode_fields:
  "Encode e m =
     enc_then (put [msgKind m])
       (if Category (msgKind m) = CategorySimple then
          (case simpleToByte m of
             Ret (Inl err) \<Rightarrow> enc_fail err
           | Ret (Inr body) \<Rightarrow> put body
           | Panic s \<Rightarrow> enc_panic s
           | Blocked \<Rightarrow> (\<lambda>st. Blocked))
        else if Category (msgKind m) = CategoryAggregate then
          enc_then (put (FormatInt (msgRunLength m))) (enc_then (put EOL)
            (enc_then (if msgKind m = kVerbatimString then enc_then (put (msgEncoding m)) (put EOL) else enc_skip)
              (if msgKind m \<in> {kBulkString, kBulkError, kVerbatimString} then writeBulk e m
               else if msgKind m \<in> {kArray, kPush, kSet} then
                 (case msgSeq m of NilSeq \<Rightarrow> enc_panic ''nil pointer dereference'' | SliceSeq ms \<Rightarrow> encode_list e ms
                  | IterateSeq r \<Rightarrow> encode_iterate r)
               else (case msgAssoc m of NilAssoc \<Rightarrow> enc_panic ''nil pointer dereference''
                  | PairsAssoc kvs \<Rightarrow> encode_pairs e kvs | ChunkAssoc r \<Rightarrow> encode_chunk r))))
        else enc_skip)"
  by (cases m) (simp only: Encode.simps Let_def message.sel)

lemma aggregate_panics:
  assumes "Category (msgKind m) = CategoryAggregate"
    and "msgKind m \<in> {kBulkString, kBulkError, kVerbatimString} \<Longrightarrow> enc_panics (writeBulk e m)"
    and "msgKind m \<in> {kArray, kPush, kSet} \<Longrightarrow> msgSeq m = NilSeq"
    and "msgKind m \<in> {kMap, kAttribute} \<Longrightarrow> msgAssoc m = NilAssoc"
  shows "enc_panics (Encode e m)"
proof -
  have rest': "enc_panics (if msgKind m \<in> {kBulkString, kBulkError, kVerbatimString} then writeBulk e m
      else if msgKind m \<in> {kArray, kPush, kSet} then
        (case msgSeq m of NilSeq \<Rightarrow> enc_panic ''nil pointer dereference'' | SliceSeq ms \<Rightarrow> encode_list e ms
         | IterateSeq r \<Rightarrow> encode_iterate r)
      else (case msgAssoc m of NilAssoc \<Rightarrow> enc_panic ''nil pointer dereference''
         | PairsAssoc kvs \<Rightarrow> encode_pairs e kvs | ChunkAssoc r \<Rightarrow> encode_chunk r))"
    using assms aggregate_assoc [of "msgKind m"] by (auto simp: panics_panic)
  have enc: "enc_passes (if msgKind m = kVerbatimString then enc_then (put (msgEncoding m)) (put EOL) else enc_skip)"
    by (simp add: passes_basic passes_then)
  show ?thesis
    unfolding Encode_fields [of e m] using assms(1) rest' enc by (simp add: panics_then passes_basic)
qed

lemma field_missing_panics:
  assumes "field_missing m"
  shows "enc_panics (Encode e m)"
proof (cases "msgKind m = kError")
  case True
  then have "simpleToByte m = Panic ''nil pointer dereference''"
    using assms by (auto simp: field_missing_def simpleToByte_def Let_def kind_defs)
  then show ?thesis unfolding Encode_fields [of e m] using True by (simp add: panics_intros)
next
  case False
  then have agg: "Category (msgKind m) = CategoryAggregate" using assms by (auto simp: field_missing_def)
  have "msgKind m \<in> {kBulkString, kBulkError, kVerbatimString} \<Longrightarrow> enc_panics (writeBulk e m)"
    using assms False by (auto simp: field_missing_def writeBulk_def panics_panic kind_defs)
  moreover have "msgKind m \<in> {kArray, kPush, kSet} \<Longrightarrow> msgSeq m = NilSeq" "msgKind m \<in> {kMap, kAttribute} \<Longrightarrow> msgAssoc m = NilAssoc"
    using assms by (auto simp: field_missing_def kind_defs)
  ultimately show ?thesis by (rule aggregate_panics [OF agg])
qed



end
