(* ===== verification/Transact.thy ===== *)
theory Transact
  imports Transactor Replication Message_Type
begin

text \<open>
  \<^verbatim>\<open>Transact\<close> of \<^verbatim>\<open>anarchoredis/txn.go\<close> with the goroutines it starts: the proxy loop, the replication stream with
  \<open>handleMessages\<close> as its callback, and the goroutine of \<^verbatim>\<open>replication.go\<close> that acknowledges the offset.

  The goroutines share the connections, the transactor and the subscriber. The position of a goroutine, with its local
  variables, is a datatype, and between two positions the other goroutines may run. A step is one method of a shared
  connection, one access to a shared atomic variable, or one call on a message or on the local database. The handshake
  with the leader is one step, as its connection is not shared before it is over.

  Three things are coarser than the code. A method of a connection is one step because of its mutex, and what a \<open>Read\<close>
  is to find is on the heap: that a \<open>Read\<close> holds the mutex while it waits for its peer is the subject of \<open>Conn_Wait\<close>, and
  nothing is claimed here about how long a goroutine waits. \<open>AwaitUnlocked\<close> is one step: it looks at the database as it is
  then, and what it is told afterwards is the parameter \<open>eFeed\<close>; its own steps are in \<open>Key_Wait\<close>. A panic ends the program at once, without the deferred calls.
  There is one call of \<open>Transact\<close>; the subscriber, a field of the transactor in the code, is held beside it.
\<close>

subsection \<open>The subscriber of a transactor\<close>

definition NewSubscriber :: "Conf \<Rightarrow> Subscriber" where
  "NewSubscriber conf =
     \<lparr>LeaderAddr = RedisAddress conf, MyAddr = ListenAddress conf, sOffset = 0, sReplicationID = None, sCh = None,
      sOnce = False, sDidSignal = False, sMade = 0, sClosed = []\<rparr>"

subsection \<open>What the goroutines share\<close>

text \<open>What the goroutines are given: libraries and the parameters of the sequential definitions.\<close>

record ('db, 't) env =
  eB :: "('db, 't) badger"
  eSetEntry :: "'t set_entry"
  eFeed :: "bytes list \<Rightarrow> kvlist list \<times> error"
  eUp :: "string \<Rightarrow> string"
  eGoOn :: bool
  eArg0 :: "seq \<Rightarrow> string"
  eView :: "message \<Rightarrow> msg_view"
  eLogAppend :: "message \<Rightarrow> string \<Rightarrow> error option"
  eDialLeader :: "error + (rid \<times> writer)"

text \<open>
  The shared state. \<open>wLeader\<close> is nil until the handshake is over, and \<open>wCtx\<close> holds the context's error and cause once it
  has ended.
\<close>

record 'db world =
  wHeap :: heap
  wClient :: Conn
  wUpstream :: Conn
  wLeader :: "Conn option"
  wTxn :: "'db Transactor"
  wSub :: Subscriber
  wCtx :: "(error \<times> error) option"

subsection \<open>The proxy, call by call\<close>

datatype proxy_pc =
    PLoop
  | PRead
  | PForward message
  | PFlushUp message
  | PReadUp message
  | PCmd message message
  | PError error message
  | PNil
  | PSelect Command message
  | PLock Command message
  | PAwait Command message
  | PAnswer message
  | PFlush
  | PEnd "error option"

text \<open>Returning from \<open>proxy\<close>: without an error the loop goes on.\<close>

definition proxy_return :: "error option \<Rightarrow> proxy_pc" where
  "proxy_return err = (if err = None then PLoop else PEnd err)"

definition or_else :: "error option \<Rightarrow> proxy_pc \<Rightarrow> proxy_pc" where
  "or_else err pc = (if err \<noteq> None then PEnd err else pc)"

fun proxy_step :: "('db, 't) env \<Rightarrow> proxy_pc \<Rightarrow> 'db world \<Rightarrow> (proxy_pc \<times> 'db world) go" where
  "proxy_step E PLoop w =
     Ret (case wCtx w of None \<Rightarrow> PRead | Some (e, cause) \<Rightarrow> PEnd (Some cause), w)"
| "proxy_step E PRead w =
     go_bind (Conn_Read (wHeap w, wClient w)) (\<lambda>((req, err), h, c).
       Ret (or_else err (PForward req), w\<lparr>wHeap := h, wClient := c\<rparr>))"
| "proxy_step E (PForward req) w =
     go_bind (Conn_Write req (wHeap w, wUpstream w)) (\<lambda>((n, err), h, u).
       Ret (or_else err (PFlushUp req), w\<lparr>wHeap := h, wUpstream := u\<rparr>))"
| "proxy_step E (PFlushUp req) w =
     go_bind (Conn_Flush (wHeap w, wUpstream w)) (\<lambda>(err, h, u).
       Ret (or_else err (PReadUp req), w\<lparr>wHeap := h, wUpstream := u\<rparr>))"
| "proxy_step E (PReadUp req) w =
     go_bind (Conn_Read (wHeap w, wUpstream w)) (\<lambda>((resp, err), h, u).
       Ret (or_else err (PCmd req resp), w\<lparr>wHeap := h, wUpstream := u\<rparr>))"
| "proxy_step E (PCmd req resp) w =
     go_bind (Cmd (eUp E) req (wHeap w)) (\<lambda>(r, h).
       Ret (case r of Inl err \<Rightarrow> PError err resp | Inr cmd \<Rightarrow> PSelect cmd resp, w\<lparr>wHeap := h\<rparr>))"
| "proxy_step E (PError err resp) w =
     go_bind (Conn_Write (NewError (Some err)) (wHeap w, wClient w)) (\<lambda>((n, err), h, c).
       Ret (or_else err PNil, w\<lparr>wHeap := h, wClient := c\<rparr>))"
| "proxy_step E PNil w = Panic ''nil pointer dereference''"
| "proxy_step E (PSelect cmd resp) w =
     Ret (if IsWrite cmd then PLock cmd resp else PAwait cmd resp,
          if cmdName cmd = ''SELECT'' then w\<lparr>wTxn := (wTxn w)\<lparr>tDatabase := eArg0 E (cmdArgs cmd)\<rparr>\<rparr> else w)"
| "proxy_step E (PLock cmd resp) w =
     go_bind (LockKeys (eB E) (eSetEntry E) (tKeysTTL (wTxn w)) (eGoOn E) cmd (tKeys (wTxn w)) (wHeap w)) (\<lambda>((err, db), h).
       Ret (or_else err (PAwait cmd resp), w\<lparr>wHeap := h, wTxn := (wTxn w)\<lparr>tKeys := db\<rparr>\<rparr>))"
| "proxy_step E (PAwait cmd resp) w =
     go_bind (AwaitUnlocked (eB E) (eFeed E) (eGoOn E) cmd (tKeys (wTxn w)) (wHeap w)) (\<lambda>(err, h).
       Ret (or_else err (PAnswer resp), w\<lparr>wHeap := h\<rparr>))"
| "proxy_step E (PAnswer resp) w =
     go_bind (Conn_Write resp (wHeap w, wClient w)) (\<lambda>((n, err), h, c).
       Ret (or_else err PFlush, w\<lparr>wHeap := h, wClient := c\<rparr>))"
| "proxy_step E PFlush w =
     go_bind (Conn_Flush (wHeap w, wClient w)) (\<lambda>(err, h, c). Ret (proxy_return err, w\<lparr>wHeap := h, wClient := c\<rparr>))"
| "proxy_step E (PEnd err) w = Blocked"

text \<open>The proxy running alone, until it returns or has made the given number of steps.\<close>

fun proxy_alone :: "nat \<Rightarrow> ('db, 't) env \<Rightarrow> proxy_pc \<Rightarrow> 'db world \<Rightarrow> (proxy_pc \<times> 'db world) go" where
  "proxy_alone 0 E pc w = Ret (pc, w)"
| "proxy_alone (Suc n) E pc w =
     (case pc of
        PLoop \<Rightarrow> Ret (pc, w)
      | PEnd err \<Rightarrow> Ret (pc, w)
      | _ \<Rightarrow> go_bind (proxy_step E pc w) (\<lambda>(pc', w'). proxy_alone n E pc' w'))"

subsection \<open>Acknowledging the offset, call by call\<close>

definition on_leader :: "'a conn_op \<Rightarrow> heap \<Rightarrow> 'db world \<Rightarrow> ('a \<times> 'db world) go" where
  "on_leader f h w =
     (case wLeader w of
        None \<Rightarrow> Panic ''nil pointer dereference''
      | Some p \<Rightarrow> go_bind (f (h, p)) (\<lambda>(x, h', p'). Ret (x, w\<lparr>wHeap := h', wLeader := Some p'\<rparr>)))"

datatype ack_pc = KWrite int | KFlush | KRead | KPong | KDone "error option"

fun ack_step :: "('db, 't) env \<Rightarrow> ack_pc \<Rightarrow> 'db world \<Rightarrow> (ack_pc \<times> 'db world) go" where
  "ack_step E (KWrite offset) w =
     (let (req, h1) = NewOutgoingCommand [''replconf'', ''ack'', FormatInt offset] (wHeap w)
      in go_bind (on_leader (Conn_Write req) h1 w) (\<lambda>((n, err), w'). Ret (if err \<noteq> None then KDone err else KFlush, w')))"
| "ack_step E KFlush w = go_bind (on_leader Conn_Flush (wHeap w) w) (\<lambda>(err, w'). Ret (KRead, w'))"
| "ack_step E KRead w =
     go_bind (on_leader Conn_Read (wHeap w) w) (\<lambda>((msg, err), w').
       Ret (if err \<noteq> None then KDone err
            else if ToUpper (eUp E) (vStr (eView E msg)) = ''PING'' then KPong else KDone None, w'))"
| "ack_step E KPong w =
     (let (pong, h1) = NewOutgoingCommand [''PONG''] (wHeap w)
      in go_bind (on_leader (Conn_Write pong) h1 w) (\<lambda>((n, err), w'). Ret (KDone err, w')))"
| "ack_step E (KDone err) w = Blocked"

subsection \<open>The replication stream, call by call\<close>

text \<open>
  The offset in every position of the loop is the argument of the deferred acknowledgement, which is loaded after the
  handshake, at \<open>SReady\<close>; the handshake itself has loaded the offset before.
\<close>

datatype stream_pc =
    SStart
  | SReady
  | SLoop int
  | SRead int
  | SMsg int message
  | SResync int message "string list"
  | SParse int message "string list"
  | SSignal int message
  | HCmd int message
  | HAppend int message "string list"
  | HUnlock int message "string list"
  | SAdd int message
  | SDefer ack_pc "error option"
  | SEnd "error option"

definition stream_start :: "('db, 't) env \<Rightarrow> 'db world \<Rightarrow> (stream_pc \<times> 'db world) go" where
  "stream_start E w =
     (let s = wSub w; s1 = (if sReplicationID s = None then s\<lparr>sReplicationID := Some []\<rparr> else s) in
      if sDidSignal s1 then
        Ret (SEnd (Some (Errorf ''attempting to reuse a subscriber, which is not allowed'' [])), w\<lparr>wSub := s1\<rparr>)
      else go_bind (startReplication (eDialLeader E) s1 (the (sReplicationID s1)) (sOffset s1) False (wHeap w)) (\<lambda>(err, h, p).
        if err \<noteq> None then Ret (SEnd err, w\<lparr>wSub := s1, wHeap := h\<rparr>)
        else Ret (SReady, w\<lparr>wSub := s1, wHeap := h, wLeader := p\<rparr>)))"

fun stream_pc_step :: "('db, 't) env \<Rightarrow> stream_pc \<Rightarrow> 'db world \<Rightarrow> (stream_pc \<times> 'db world) go" where
  "stream_pc_step E SStart w = stream_start E w"
| "stream_pc_step E SReady w = Ret (SLoop (sOffset (wSub w)), w)"
| "stream_pc_step E (SLoop off) w = Ret (if wCtx w = None then SRead off else SDefer (KWrite off) None, w)"
| "stream_pc_step E (SRead off) w =
     go_bind (on_leader Conn_Read (wHeap w) w) (\<lambda>((read, err), w').
       Ret (case err of Some e \<Rightarrow> SDefer (KWrite off) (Some (Errorf ''%w reading message'' [e])) | None \<Rightarrow> SMsg off read, w'))"
| "stream_pc_step E (SMsg off read) w =
     (if msgKind read = kSimpleString then
        let split = Split (msgSimpleString read) '' '' in
        Ret (if split ! 0 = ''FULLRESYNC'' then SResync off read split else SAdd off read, w)
      else if msgKind read = kArray then
        (case vArray0 (eView E read) of
           None \<Rightarrow> Panic ''index out of range''
         | Some str \<Rightarrow> Ret (if str \<noteq> ''PING'' then HCmd off read else SAdd off read, w))
      else if vIndicator (eView E read) = kError then Ret (SDefer (KWrite off) (Some (Errorf ''%s'' [])), w)
      else Ret (SAdd off read, w))"
| "stream_pc_step E (SResync off read split) w =
     (if length split < 2 then Panic ''index out of range''
      else Ret (SParse off read split, w\<lparr>wSub := (wSub w)\<lparr>sReplicationID := Some (split ! 1)\<rparr>\<rparr>))"
| "stream_pc_step E (SParse off read split) w =
     (if length split < 3 then Panic ''index out of range''
      else case ParseInt (split ! 2) of
        Inl err \<Rightarrow> Ret (SDefer (KWrite off) (Some err), w)
      | Inr offset \<Rightarrow> Ret (SSignal off read, w\<lparr>wSub := (wSub w)\<lparr>sOffset := offset\<rparr>\<rparr>))"
| "stream_pc_step E (SSignal off read) w =
     go_bind (Broadcast (wSub w)) (\<lambda>s. Ret (SAdd off read, w\<lparr>wSub := s\<rparr>))"
| "stream_pc_step E (HCmd off msg) w =
     (case wCtx w of
        Some (e, cause) \<Rightarrow> Ret (SDefer (KWrite off) (Some e), w)
      | None \<Rightarrow> go_bind (Cmd (eUp E) msg (wHeap w)) (\<lambda>(r, h1).
          case r of
            Inl err \<Rightarrow> Ret (SDefer (KWrite off) (Some err), w\<lparr>wHeap := h1\<rparr>)
          | Inr cmd \<Rightarrow> go_bind (Keys (eGoOn E) cmd h1) (\<lambda>((keys, err), h2).
              Ret (if err \<noteq> None then SDefer (KWrite off) err else HAppend off msg keys, w\<lparr>wHeap := h2\<rparr>))))"
| "stream_pc_step E (HAppend off msg keys) w =
     (let t = wTxn w; err = eLogAppend E msg (tDatabase t)
      in Ret (if err \<noteq> None then SDefer (KWrite off) err else HUnlock off msg keys,
              w\<lparr>wTxn := t\<lparr>tAppended := tAppended t @ [(msg, tDatabase t)]\<rparr>\<rparr>))"
| "stream_pc_step E (HUnlock off msg keys) w =
     (let (err, db) = UnlockKeys (eB E) keys (tKeys (wTxn w))
      in Ret (if err \<noteq> None then SDefer (KWrite off) err
              else (case wCtx w of Some (e, cause) \<Rightarrow> SDefer (KWrite off) (Some cause) | None \<Rightarrow> SAdd off msg),
              w\<lparr>wTxn := (wTxn w)\<lparr>tKeys := db\<rparr>\<rparr>))"
| "stream_pc_step E (SAdd off read) w =
     Ret (SLoop off, w\<lparr>wSub := (wSub w)\<lparr>sOffset := wrap64 (sOffset (wSub w) + vSize (eView E read))\<rparr>\<rparr>)"
| "stream_pc_step E (SDefer k err) w =
     (case k of
        KDone _ \<Rightarrow> Ret (SEnd err, w)
      | _ \<Rightarrow> go_bind (ack_step E k w) (\<lambda>(k', w'). Ret (SDefer k' err, w')))"
| "stream_pc_step E (SEnd err) w = Blocked"

subsection \<open>All together\<close>

datatype acker = AOff | AIdle | ARun ack_pc | AEnd

text \<open>\<open>sErr\<close> is the first error of the group, which \<open>Wait\<close> returns when both of its goroutines have ended.\<close>

record 'db sys =
  sProxy :: proxy_pc
  sStream :: stream_pc
  sAcker :: acker
  sWorld :: "'db world"
  sErr :: "error option"
  sPanic :: bool

definition first_err :: "error option \<Rightarrow> error option \<Rightarrow> error option" where
  "first_err old new = (if old = None then new else old)"

definition proxy_err :: "proxy_pc \<Rightarrow> error option" where
  "proxy_err pc = (case pc of PEnd err \<Rightarrow> err | _ \<Rightarrow> None)"

definition stream_err :: "stream_pc \<Rightarrow> error option" where
  "stream_err pc = (case pc of SEnd err \<Rightarrow> err | _ \<Rightarrow> None)"

text \<open>The acknowledging goroutine starts with the loop of the stream.\<close>

definition started :: "acker \<Rightarrow> stream_pc \<Rightarrow> acker" where
  "started a pc = (case pc of SLoop off \<Rightarrow> (if a = AOff then AIdle else a) | _ \<Rightarrow> a)"

inductive transact_step :: "('db, 't) env \<Rightarrow> 'db sys \<Rightarrow> 'db sys \<Rightarrow> bool" for E where
  proxy: "\<not> sPanic s \<Longrightarrow> proxy_step E (sProxy s) (sWorld s) = Ret (pc, w) \<Longrightarrow>
    transact_step E s (s\<lparr>sProxy := pc, sWorld := w, sErr := first_err (sErr s) (proxy_err pc)\<rparr>)"
| proxy_panic: "\<not> sPanic s \<Longrightarrow> proxy_step E (sProxy s) (sWorld s) = Panic m \<Longrightarrow> transact_step E s (s\<lparr>sPanic := True\<rparr>)"
| stream: "\<not> sPanic s \<Longrightarrow> stream_pc_step E (sStream s) (sWorld s) = Ret (pc, w) \<Longrightarrow>
    transact_step E s (s\<lparr>sStream := pc, sAcker := started (sAcker s) pc, sWorld := w, sErr := first_err (sErr s) (stream_err pc)\<rparr>)"
| stream_panic: "\<not> sPanic s \<Longrightarrow> stream_pc_step E (sStream s) (sWorld s) = Panic m \<Longrightarrow> transact_step E s (s\<lparr>sPanic := True\<rparr>)"
| tick: "\<not> sPanic s \<Longrightarrow> sAcker s = AIdle \<Longrightarrow> transact_step E s (s\<lparr>sAcker := ARun (KWrite (sOffset (wSub (sWorld s))))\<rparr>)"
| acker: "\<not> sPanic s \<Longrightarrow> sAcker s = ARun k \<Longrightarrow> ack_step E k (sWorld s) = Ret (k', w) \<Longrightarrow>
    transact_step E s (s\<lparr>sAcker := ARun k', sWorld := w\<rparr>)"
| acker_panic: "\<not> sPanic s \<Longrightarrow> sAcker s = ARun k \<Longrightarrow> ack_step E k (sWorld s) = Panic m \<Longrightarrow> transact_step E s (s\<lparr>sPanic := True\<rparr>)"
| acker_done: "\<not> sPanic s \<Longrightarrow> sAcker s = ARun (KDone err) \<Longrightarrow> transact_step E s (s\<lparr>sAcker := AIdle\<rparr>)"
| acker_stop: "\<not> sPanic s \<Longrightarrow> sAcker s = AIdle \<Longrightarrow> wCtx (sWorld s) \<noteq> None \<Longrightarrow> transact_step E s (s\<lparr>sAcker := AEnd\<rparr>)"
| cancel: "\<not> sPanic s \<Longrightarrow> wCtx (sWorld s) = None \<Longrightarrow> transact_step E s (s\<lparr>sWorld := (sWorld s)\<lparr>wCtx := Some (e, cause)\<rparr>\<rparr>)"

text \<open>\<open>Transact\<close> up to the point where the goroutines run; \<open>dial\<close> is the outcome of dialling the redis server.\<close>

definition Transact :: "error + (rid \<times> writer) \<Rightarrow> rid \<times> writer \<Rightarrow> 'db Transactor \<Rightarrow> Subscriber \<Rightarrow> heap \<Rightarrow> error + 'db sys" where
  "Transact dial conn t sub h =
     (let connection = NewConnection (fst conn) (snd conn) in
      case dial of
        Inl err \<Rightarrow> Inl (Errorf ''could not dial upstream address %q: %w'' [err])
      | Inr (r, peer) \<Rightarrow>
          Inr \<lparr>sProxy = PLoop, sStream = SStart, sAcker = AOff,
               sWorld = \<lparr>wHeap = h, wClient = connection, wUpstream = NewConnection r peer,
                 wLeader = None, wTxn = t, wSub = sub, wCtx = None\<rparr>,
               sErr = None, sPanic = False\<rparr>)"

definition Wait :: "'db sys \<Rightarrow> error option go" where
  "Wait s = (case (sProxy s, sStream s) of (PEnd _, SEnd _) \<Rightarrow> Ret (sErr s) | _ \<Rightarrow> Blocked)"

subsection \<open>The proxy alone\<close>

lemma go_bind_cong: "(\<And>x. f x = g x) \<Longrightarrow> go_bind a f = go_bind a g"
  by (cases a) auto

lemma proxy_alone_end: "proxy_alone n E (PEnd err) w = Ret (PEnd err, w)" "proxy_alone n E PLoop w = Ret (PLoop, w)"
  by (cases n; simp)+

lemma proxy_alone_proxy:
  "proxy_alone 10 E PRead w =
     go_bind (proxy (eB E) (eSetEntry E) (eFeed E) (eUp E) (eGoOn E) (eArg0 E) (wHeap w, wClient w, wUpstream w, wTxn w))
       (\<lambda>(err, h, c, u, t). Ret (proxy_return err, w\<lparr>wHeap := h, wClient := c, wUpstream := u, wTxn := t\<rparr>))"
  by (auto simp: numeral_eq_Suc proxy_def proxy_command_def go_bind_assoc or_else_def proxy_return_def proxy_alone_end Let_def
      intro!: go_bind_cong split: prod.split sum.split)

subsection \<open>Calls that return\<close>

lemma NewOutgoingCommand_ok: "NewOutgoingCommand args h = (m, h') \<Longrightarrow> msg_ok m"
  using NewOutgoingCommand_repr repr_ok by blast

lemma Conn_Write_returns:
  assumes "msg_ok m" "\<not> cLocked c"
  obtains n err h' c' where "Conn_Write m (h, c) = Ret ((n, err), h', c')" "\<not> cLocked c'"
proof -
  obtain n err h' w where "Encode (cEncoder c) m (h, cWriter c) = Ret ((n, err), h', w)"
    using Encode_total_all(1) [OF assms(1)] unfolding enc_total_def by (metis surj_pair)
  then have "Conn_Write m (h, c) = Ret ((n, err), h', c\<lparr>cWriter := w\<rparr>)"
    using assms(2) by (simp add: Conn_Write_def with_lock_def)
  then show thesis using that assms(2) by simp
qed

lemma RoundTrip_returns:
  assumes "msg_ok m" "\<not> cLocked c"
  obtains r err h' c' where "RoundTrip m (h, c) = Ret ((r, err), h', c')" "\<not> cLocked c'"
proof -
  obtain n e1 h1 c1 where w: "Conn_Write m (h, c) = Ret ((n, e1), h1, c1)" "\<not> cLocked c1" by (rule Conn_Write_returns [OF assms])
  obtain e2 c2 where f: "Conn_Flush (h1, c1) = Ret (e2, h1, c2)" "\<not> cLocked c2" by (rule Conn_Flush_out [OF w(2)])
  obtain e3 h3 where r: "Conn_Read (h1, c2) = Ret ((zero_msg, e3), h3, c2)" using Conn_Read_zero [OF f(2)] by blast
  show thesis
  proof (cases e1)
    case None
    then show thesis using that [of zero_msg e3 h3 c2] w f r by (simp add: RoundTrip_def)
  next
    case (Some e)
    then show thesis using that [of zero_msg e1 h1 c1] w by (simp add: RoundTrip_def)
  qed
qed

lemma startReplication_returns: "\<exists>err h' q. startReplication dial s i n b h = Ret (err, h', q)"
proof (cases "\<exists>r peer host port. dial = Inr (r, peer) \<and> SplitHostPort (MyAddr s) = Inr (host, port)")
  case True
  then obtain r peer host port where d: "dial = Inr (r, peer)" "SplitHostPort (MyAddr s) = Inr (host, port)" by blast
  let ?conf = "[''REPLCONF'', ''listening-port'', port, ''ip-address'', host, ''capa'', ''psync2'']"
  obtain ping h1 where m1: "NewOutgoingCommand [''PING''] h = (ping, h1)" by fastforce
  obtain psync h2 where m2: "NewOutgoingCommand [''PSYNC'', i, FormatInt n] h1 = (psync, h2)" by fastforce
  obtain capa h3 where m3: "NewOutgoingCommand (if b then ?conf @ [''snapshot-only'', ''1''] else ?conf) h2 = (capa, h3)" by fastforce
  note ok = m1 [THEN NewOutgoingCommand_ok] m2 [THEN NewOutgoingCommand_ok] m3 [THEN NewOutgoingCommand_ok]
  have free: "\<not> cLocked (NewConnection r peer)" by (simp add: NewConnection_def)
  obtain r4 e4 h4 p4 where t1: "RoundTrip ping (h3, NewConnection r peer) = Ret ((r4, e4), h4, p4)" "\<not> cLocked p4"
    by (rule RoundTrip_returns [OF ok(1) free])
  obtain r5 e5 h5 p5 where t2: "RoundTrip capa (h4, p4) = Ret ((r5, e5), h5, p5)" "\<not> cLocked p5"
    by (rule RoundTrip_returns [OF ok(3) t1(2)])
  obtain r6 e6 h6 p6 where t3: "RoundTrip psync (h5, p5) = Ret ((r6, e6), h6, p6)" by (rule RoundTrip_returns [OF ok(2) t2(2)])
  show ?thesis unfolding startReplication_def using d m1 m2 m3 t1 t2 t3 by (auto simp: Let_def)
qed (auto simp: startReplication_def split: sum.split prod.split)

subsection \<open>What no interleaving changes\<close>

definition leader_free :: "'db world \<Rightarrow> bool" where
  "leader_free w \<longleftrightarrow> (\<exists>p. wLeader w = Some p \<and> \<not> cLocked p)"

text \<open>A step of the replication side leaves the client's side, the transactor and the signal alone.\<close>

definition same_front :: "'db world \<Rightarrow> 'db world \<Rightarrow> bool" where
  "same_front w w' \<longleftrightarrow> wClient w' = wClient w \<and> wUpstream w' = wUpstream w \<and> wTxn w' = wTxn w \<and> wCtx w' = wCtx w \<and>
     sDidSignal (wSub w') = sDidSignal (wSub w)"

lemma on_leader_returns:
  assumes "leader_free w" "\<And>p. \<not> cLocked p \<Longrightarrow> \<exists>x h' p'. f (h, p) = Ret (x, h', p') \<and> \<not> cLocked p'"
  shows "\<exists>x w'. on_leader f h w = Ret (x, w') \<and> leader_free w' \<and> same_front w w'"
proof -
  obtain p where p: "wLeader w = Some p" "\<not> cLocked p" using assms(1) by (auto simp: leader_free_def)
  obtain x h' p' where "f (h, p) = Ret (x, h', p')" "\<not> cLocked p'" using assms(2) [OF p(2)] by blast
  then show ?thesis using p by (simp add: on_leader_def leader_free_def same_front_def)
qed

lemma leader_Write:
  assumes "leader_free w" "NewOutgoingCommand args h0 = (m, h)"
  obtains n err w' where "on_leader (Conn_Write m) h w = Ret ((n, err), w')" "leader_free w'" "same_front w w'"
proof -
  have "\<exists>x h' p'. Conn_Write m (h, p) = Ret (x, h', p') \<and> \<not> cLocked p'" if "\<not> cLocked p" for p
    by (rule Conn_Write_returns [OF NewOutgoingCommand_ok [OF assms(2)] that, of h]) blast
  from on_leader_returns [of w "Conn_Write m" h, OF assms(1) this] show thesis using that by force
qed

lemma leader_Flush:
  assumes "leader_free w"
  obtains err w' where "on_leader Conn_Flush h w = Ret (err, w')" "leader_free w'" "same_front w w'"
proof -
  have "\<exists>x h' p'. Conn_Flush (h, p) = Ret (x, h', p') \<and> \<not> cLocked p'" if "\<not> cLocked p" for p
    by (rule Conn_Flush_out [OF that, of h]) blast
  from on_leader_returns [of w Conn_Flush h, OF assms this] show thesis using that by blast
qed

lemma leader_Read:
  assumes "leader_free w"
  obtains err w' where "on_leader Conn_Read h w = Ret ((zero_msg, err), w')" "leader_free w'" "same_front w w'"
proof -
  obtain p where p: "wLeader w = Some p" "\<not> cLocked p" using assms by (auto simp: leader_free_def)
  obtain err h' where "Conn_Read (h, p) = Ret ((zero_msg, err), h', p)" using Conn_Read_zero [OF p(2)] by blast
  then show thesis using that p by (simp add: on_leader_def leader_free_def same_front_def)
qed

lemma ack_step_returns:
  assumes "leader_free w" "\<forall>err. k \<noteq> KDone err"
  obtains k' w' where "ack_step E k w = Ret (k', w')" "leader_free w'" "same_front w w'"
proof (cases k)
  case (KWrite offset)
  obtain m h where m: "NewOutgoingCommand [''replconf'', ''ack'', FormatInt offset] (wHeap w) = (m, h)" by fastforce
  obtain n err w' where "on_leader (Conn_Write m) h w = Ret ((n, err), w')" "leader_free w'" "same_front w w'"
    by (rule leader_Write [OF assms(1) m])
  then show thesis using that KWrite m by simp
next
  case KFlush
  obtain err w' where "on_leader Conn_Flush (wHeap w) w = Ret (err, w')" "leader_free w'" "same_front w w'"
    by (rule leader_Flush [OF assms(1)])
  then show thesis using that KFlush by simp
next
  case KRead
  obtain err w' where "on_leader Conn_Read (wHeap w) w = Ret ((zero_msg, err), w')" "leader_free w'" "same_front w w'"
    by (rule leader_Read [OF assms(1)])
  then show thesis using that KRead by simp
next
  case KPong
  obtain m h where m: "NewOutgoingCommand [''PONG''] (wHeap w) = (m, h)" by fastforce
  obtain n err w' where "on_leader (Conn_Write m) h w = Ret ((n, err), w')" "leader_free w'" "same_front w w'"
    by (rule leader_Write [OF assms(1) m])
  then show thesis using that KPong m by simp
qed (use assms in simp)

text \<open>The positions the stream can be in: every message it reads is the zero message, which no callback is called for.\<close>

fun stream_quiet :: "stream_pc \<Rightarrow> bool" where
  "stream_quiet (SMsg off m) \<longleftrightarrow> m = zero_msg"
| "stream_quiet (SAdd off m) \<longleftrightarrow> m = zero_msg"
| "stream_quiet SStart \<longleftrightarrow> True"
| "stream_quiet SReady \<longleftrightarrow> True"
| "stream_quiet (SLoop off) \<longleftrightarrow> True"
| "stream_quiet (SRead off) \<longleftrightarrow> True"
| "stream_quiet (SDefer k err) \<longleftrightarrow> True"
| "stream_quiet (SEnd err) \<longleftrightarrow> True"
| "stream_quiet _ \<longleftrightarrow> False"

definition replicating :: "stream_pc \<Rightarrow> bool" where
  "replicating pc \<longleftrightarrow> pc \<noteq> SStart \<and> (\<forall>err. pc \<noteq> SEnd err)"

lemma same_front_refl [simp]: "same_front w w"
  by (simp add: same_front_def)

lemma stream_start_returns:
  obtains pc w' where "stream_start E w = Ret (pc, w')" "stream_quiet pc" "replicating pc \<longrightarrow> leader_free w'" "same_front w w'"
    "\<not> replicating pc \<longrightarrow> wLeader w' = wLeader w"
proof -
  define s1 where "s1 = (if sReplicationID (wSub w) = None then (wSub w)\<lparr>sReplicationID := Some []\<rparr> else wSub w)"
  have same: "sDidSignal s1 = sDidSignal (wSub w)" by (simp add: s1_def)
  obtain err h q where r: "startReplication (eDialLeader E) s1 (the (sReplicationID s1)) (sOffset s1) False (wHeap w) = Ret (err, h, q)"
    using startReplication_returns by blast
  show thesis
  proof (cases "sDidSignal s1 \<or> err \<noteq> None")
    case True
    then show thesis using that r same
      by (auto simp: stream_start_def Let_def s1_def [symmetric] same_front_def replicating_def)
  next
    case False
    then have r0: "startReplication (eDialLeader E) s1 (the (sReplicationID s1)) (sOffset s1) False (wHeap w) = Ret (None, h, q)"
      using r by simp
    obtain p where "q = Some p" "\<not> cLocked p" using startReplication_free [OF r0] by blast
    then show thesis using that False r0 same
      by (auto simp: stream_start_def Let_def s1_def [symmetric] same_front_def leader_free_def replicating_def)
  qed
qed

lemma stream_pc_step_quiet:
  assumes "stream_quiet pc" "replicating pc \<longrightarrow> leader_free w" "\<forall>err. pc \<noteq> SEnd err"
  obtains pc' w' where "stream_pc_step E pc w = Ret (pc', w')" "stream_quiet pc'" "replicating pc' \<longrightarrow> leader_free w'"
    "leader_free w \<longrightarrow> leader_free w'" "same_front w w'"
proof (cases pc)
  case SStart
  obtain pc' w' where "stream_start E w = Ret (pc', w')" "stream_quiet pc'" "replicating pc' \<longrightarrow> leader_free w'" "same_front w w'"
    "\<not> replicating pc' \<longrightarrow> wLeader w' = wLeader w"
    by (rule stream_start_returns)
  then show thesis using that SStart by (cases "replicating pc'") (auto simp: leader_free_def)
next
  case (SRead off)
  then have "leader_free w" using assms(2) by (simp add: replicating_def)
  then obtain err w' where "on_leader Conn_Read (wHeap w) w = Ret ((zero_msg, err), w')" "leader_free w'" "same_front w w'"
    by (rule leader_Read)
  then show thesis using that SRead by (cases err) auto
next
  case (SMsg off m)
  then have "\<exists>pc'. stream_pc_step E pc w = Ret (pc', w) \<and> stream_quiet pc'"
    using assms(1) by (simp add: zero_msg_def kind_msg_def kind_defs)
  moreover have "leader_free w" using SMsg assms(2) by (simp add: replicating_def)
  ultimately show thesis using that same_front_refl by blast
next
  case (SDefer k err)
  then have free: "leader_free w" using assms(2) by (simp add: replicating_def)
  show thesis
  proof (cases "\<exists>e. k = KDone e")
    case True
    then show thesis using that SDefer free by auto
  next
    case False
    then obtain k' w' where "ack_step E k w = Ret (k', w')" "leader_free w'" "same_front w w'"
      using ack_step_returns [OF free] by metis
    then show thesis using that SDefer False by (cases k) auto
  qed
qed (use assms that in \<open>auto simp: replicating_def leader_free_def same_front_def\<close>)

text \<open>The positions the proxy can be in, and what it has done to the client's side when it is there.\<close>

fun proxy_quiet :: "proxy_pc \<Rightarrow> bool" where
  "proxy_quiet PLoop \<longleftrightarrow> True"
| "proxy_quiet PRead \<longleftrightarrow> True"
| "proxy_quiet (PForward m) \<longleftrightarrow> m = zero_msg"
| "proxy_quiet (PFlushUp m) \<longleftrightarrow> m = zero_msg"
| "proxy_quiet (PReadUp m) \<longleftrightarrow> m = zero_msg"
| "proxy_quiet (PCmd m resp) \<longleftrightarrow> m = zero_msg"
| "proxy_quiet (PError err resp) \<longleftrightarrow> True"
| "proxy_quiet (PEnd err) \<longleftrightarrow> err \<noteq> None"
| "proxy_quiet _ \<longleftrightarrow> False"

fun forwarded :: "proxy_pc \<Rightarrow> bool" where
  "forwarded PLoop \<longleftrightarrow> False"
| "forwarded PRead \<longleftrightarrow> False"
| "forwarded (PForward m) \<longleftrightarrow> False"
| "forwarded _ \<longleftrightarrow> True"

definition front_ok :: "writer \<Rightarrow> 'db Transactor \<Rightarrow> proxy_pc \<Rightarrow> 'db world \<Rightarrow> bool" where
  "front_ok peer t pc w \<longleftrightarrow> \<not> cLocked (wClient w) \<and> \<not> cLocked (wUpstream w) \<and> cPeer (wClient w) = peer \<and> wTxn w = t \<and>
     (out (cWriter (wUpstream w)) = [] \<or> forwarded pc \<and> out (cWriter (wUpstream w)) = [CHR 0x00])"

lemma front_ok_same: "front_ok peer t pc w \<Longrightarrow> same_front w w' \<Longrightarrow> front_ok peer t pc w'"
  by (simp add: front_ok_def same_front_def)

definition same_back :: "'db world \<Rightarrow> 'db world \<Rightarrow> bool" where
  "same_back w w' \<longleftrightarrow> wLeader w' = wLeader w \<and> wSub w' = wSub w \<and> wCtx w' = wCtx w"

lemma proxy_step_quiet:
  assumes "proxy_quiet pc" "front_ok peer t pc w" "\<forall>err. pc \<noteq> PEnd err"
  obtains pc' w' where "proxy_step E pc w = Ret (pc', w')" "proxy_quiet pc'" "front_ok peer t pc' w'" "same_back w w'"
proof -
  have free: "\<not> cLocked (wClient w)" "\<not> cLocked (wUpstream w)" using assms(2) by (simp_all add: front_ok_def)
  show thesis
  proof (cases pc)
    case PLoop
    then show thesis using that assms(2) by (cases "wCtx w") (auto simp: front_ok_def same_back_def)
  next
    case PRead
    obtain err h where "Conn_Read (wHeap w, wClient w) = Ret ((zero_msg, err), h, wClient w)" using Conn_Read_zero [OF free(1)] by blast
    then show thesis using that PRead assms(2) by (cases err) (auto simp: front_ok_def same_back_def or_else_def)
  next
    case (PForward m)
    obtain n err v where "Conn_Write zero_msg (wHeap w, wUpstream w) = Ret ((n, err), wHeap w, (wUpstream w)\<lparr>cWriter := v\<rparr>)"
      "out v = out (cWriter (wUpstream w)) \<or> out v = out (cWriter (wUpstream w)) @ [CHR 0x00]"
      by (rule Conn_Write_zero [OF free(2)])
    then show thesis using that PForward assms(1,2) by (cases err) (auto simp: front_ok_def same_back_def or_else_def)
  next
    case (PFlushUp m)
    obtain err u where "Conn_Flush (wHeap w, wUpstream w) = Ret (err, wHeap w, u)" "\<not> cLocked u" "out (cWriter u) = out (cWriter (wUpstream w))"
      by (rule Conn_Flush_out [OF free(2)])
    then show thesis using that PFlushUp assms(1,2) by (cases err) (auto simp: front_ok_def same_back_def or_else_def)
  next
    case (PReadUp m)
    obtain err h where "Conn_Read (wHeap w, wUpstream w) = Ret ((zero_msg, err), h, wUpstream w)" using Conn_Read_zero [OF free(2)] by blast
    then show thesis using that PReadUp assms(1,2) by (cases err) (auto simp: front_ok_def same_back_def or_else_def)
  next
    case (PCmd m resp)
    obtain e where "Cmd (eUp E) zero_msg (wHeap w) = Ret (Inl e, wHeap w)" using Cmd_zero_msg by blast
    then show thesis using that PCmd assms(1,2) by (auto simp: front_ok_def same_back_def)
  next
    case (PError err resp)
    obtain n e c where c: "Conn_Write (NewError (Some err)) (wHeap w, wClient w) = Ret ((n, Some e), wHeap w, c)" "cPeer c = cPeer (wClient w)"
      using Conn_Write_error [OF free(1)] by blast
    moreover have "\<not> cLocked c" by (rule cw.releases [OF c(1)])
    ultimately show thesis using that PError assms(2) by (auto simp: front_ok_def same_back_def or_else_def)
  qed (use assms in auto)
qed

subsection \<open>All interleavings\<close>

definition sys_inv :: "writer \<Rightarrow> 'db Transactor \<Rightarrow> bool \<Rightarrow> 'db sys \<Rightarrow> bool" where
  "sys_inv peer t used s \<longleftrightarrow> \<not> sPanic s \<and> proxy_quiet (sProxy s) \<and> front_ok peer t (sProxy s) (sWorld s) \<and>
     stream_quiet (sStream s) \<and> (replicating (sStream s) \<or> sAcker s \<noteq> AOff \<longrightarrow> leader_free (sWorld s)) \<and>
     sDidSignal (wSub (sWorld s)) = used \<and> ((\<exists>err. sProxy s = PEnd err) \<longrightarrow> sErr s \<noteq> None)"

lemma first_err_Some: "first_err old new \<noteq> None \<longleftrightarrow> old \<noteq> None \<or> new \<noteq> None"
  by (auto simp: first_err_def)

lemma started_on: "started a pc \<noteq> AOff \<Longrightarrow> a \<noteq> AOff \<or> replicating pc"
  by (auto simp: started_def replicating_def split: stream_pc.splits)

lemma sys_inv_proxy:
  assumes "sys_inv peer t used s" "\<forall>err. sProxy s \<noteq> PEnd err"
  obtains pc w where "proxy_step E (sProxy s) (sWorld s) = Ret (pc, w)"
    "sys_inv peer t used (s\<lparr>sProxy := pc, sWorld := w, sErr := first_err (sErr s) (proxy_err pc)\<rparr>)"
proof -
  have q: "proxy_quiet (sProxy s)" "front_ok peer t (sProxy s) (sWorld s)" using assms(1) by (simp_all add: sys_inv_def)
  obtain pc w where r: "proxy_step E (sProxy s) (sWorld s) = Ret (pc, w)" "proxy_quiet pc" "front_ok peer t pc w" "same_back (sWorld s) w"
    by (rule proxy_step_quiet [OF q assms(2)])
  have same: "leader_free w = leader_free (sWorld s)" "wSub w = wSub (sWorld s)"
    using r(4) by (simp_all add: same_back_def leader_free_def)
  have "(\<exists>err. pc = PEnd err) \<longrightarrow> first_err (sErr s) (proxy_err pc) \<noteq> None"
    using r(2) by (auto simp: first_err_def proxy_err_def)
  then have "sys_inv peer t used (s\<lparr>sProxy := pc, sWorld := w, sErr := first_err (sErr s) (proxy_err pc)\<rparr>)"
    using r(2,3) same assms(1) by (simp add: sys_inv_def)
  then show thesis by (rule that [OF r(1)])
qed

lemma sys_inv_stream:
  assumes "sys_inv peer t used s" "\<forall>err. sStream s \<noteq> SEnd err"
  obtains pc w where "stream_pc_step E (sStream s) (sWorld s) = Ret (pc, w)"
    "sys_inv peer t used (s\<lparr>sStream := pc, sAcker := started (sAcker s) pc, sWorld := w, sErr := first_err (sErr s) (stream_err pc)\<rparr>)"
proof -
  have q: "stream_quiet (sStream s)" "replicating (sStream s) \<longrightarrow> leader_free (sWorld s)" using assms(1) by (simp_all add: sys_inv_def)
  obtain pc w where r: "stream_pc_step E (sStream s) (sWorld s) = Ret (pc, w)" "stream_quiet pc" "replicating pc \<longrightarrow> leader_free w"
    "leader_free (sWorld s) \<longrightarrow> leader_free w" "same_front (sWorld s) w"
    by (rule stream_pc_step_quiet [OF q assms(2)])
  have front: "front_ok peer t (sProxy s) w" using front_ok_same [OF _ r(5)] assms(1) by (simp add: sys_inv_def)
  have lead: "replicating pc \<or> started (sAcker s) pc \<noteq> AOff \<longrightarrow> leader_free w"
    using started_on [of "sAcker s" pc] r(3,4) assms(1) unfolding sys_inv_def by blast
  have "(\<exists>err. sProxy s = PEnd err) \<longrightarrow> first_err (sErr s) (stream_err pc) \<noteq> None"
    using assms(1) unfolding sys_inv_def first_err_Some by blast
  then have "sys_inv peer t used (s\<lparr>sStream := pc, sAcker := started (sAcker s) pc, sWorld := w, sErr := first_err (sErr s) (stream_err pc)\<rparr>)"
    using r(2,5) front lead assms(1) by (simp add: sys_inv_def same_front_def)
  then show thesis by (rule that [OF r(1)])
qed

lemma sys_inv_ack:
  assumes "sys_inv peer t used s" "sAcker s = ARun k" "\<forall>err. k \<noteq> KDone err"
  obtains k' w where "ack_step E k (sWorld s) = Ret (k', w)" "sys_inv peer t used (s\<lparr>sAcker := ARun k', sWorld := w\<rparr>)"
proof -
  have "leader_free (sWorld s)" using assms(1,2) by (simp add: sys_inv_def)
  then obtain k' w where r: "ack_step E k (sWorld s) = Ret (k', w)" "leader_free w" "same_front (sWorld s) w"
    using ack_step_returns [OF _ assms(3)] by metis
  have "front_ok peer t (sProxy s) w" using front_ok_same [OF _ r(3)] assms(1) by (simp add: sys_inv_def)
  then show thesis using that r assms(1) by (auto simp: sys_inv_def same_front_def)
qed

lemma sys_inv_step:
  assumes "transact_step E s s'" "sys_inv peer t used s"
  shows "sys_inv peer t used s'"
  using assms(1)
proof cases
  case (proxy pc w)
  then have "\<forall>err. sProxy s \<noteq> PEnd err" by auto
  from sys_inv_proxy [OF assms(2) this, of E] proxy show ?thesis by auto
next
  case (proxy_panic m)
  then have "\<forall>err. sProxy s \<noteq> PEnd err" by auto
  from sys_inv_proxy [OF assms(2) this, of E] proxy_panic show ?thesis by auto
next
  case (stream pc w)
  then have "\<forall>err. sStream s \<noteq> SEnd err" by auto
  from sys_inv_stream [OF assms(2) this, of E] stream show ?thesis by auto
next
  case (stream_panic m)
  then have "\<forall>err. sStream s \<noteq> SEnd err" by auto
  from sys_inv_stream [OF assms(2) this, of E] stream_panic show ?thesis by auto
next
  case (acker k k' w)
  then have "\<forall>err. k \<noteq> KDone err" by auto
  from sys_inv_ack [OF assms(2) acker(3) this, of E] acker show ?thesis by auto
next
  case (acker_panic k m)
  then have "\<forall>err. k \<noteq> KDone err" by auto
  from sys_inv_ack [OF assms(2) acker_panic(3) this, of E] acker_panic show ?thesis by auto
qed (use assms(2) in \<open>auto simp: sys_inv_def front_ok_def leader_free_def\<close>)

lemma sys_inv_reach: "(transact_step E)\<^sup>*\<^sup>* s s' \<Longrightarrow> sys_inv peer t used s \<Longrightarrow> sys_inv peer t used s'"
  by (induction rule: rtranclp_induct) (auto intro: sys_inv_step)

lemma sys_inv_start: "Transact dial conn t sub h = Inr s \<Longrightarrow> sys_inv (snd conn) t (sDidSignal sub) s"
  by (auto simp: Transact_def sys_inv_def front_ok_def NewConnection_def replicating_def split: sum.splits)

lemma Wait_ended: "Wait s = Ret r \<Longrightarrow> r = sErr s \<and> (\<exists>err. sProxy s = PEnd err)"
  by (auto simp: Wait_def split: proxy_pc.splits stream_pc.splits)

lemma proxy_alone_steps:
  "proxy_alone n E pc w = Ret (pc', w') \<Longrightarrow> \<not> sPanic s \<Longrightarrow> sProxy s = pc \<Longrightarrow> sWorld s = w \<Longrightarrow>
   \<exists>e. (transact_step E)\<^sup>*\<^sup>* s (s\<lparr>sProxy := pc', sWorld := w', sErr := e\<rparr>)"
proof (induction n arbitrary: pc w s)
  case 0
  then have "s\<lparr>sProxy := pc', sWorld := w', sErr := sErr s\<rparr> = s" by auto
  then show ?case by (metis rtranclp.rtrancl_refl)
next
  case (Suc n)
  show ?case
  proof (cases "pc = PLoop \<or> (\<exists>err. pc = PEnd err)")
    case True
    then have "s\<lparr>sProxy := pc', sWorld := w', sErr := sErr s\<rparr> = s" using Suc.prems by auto
    then show ?thesis by (metis rtranclp.rtrancl_refl)
  next
    case False
    then have "go_bind (proxy_step E pc w) (\<lambda>(pc', w'). proxy_alone n E pc' w') = Ret (pc', w')"
      using Suc.prems(1) by (cases pc) simp_all
    then obtain pc1 w1 where r: "proxy_step E pc w = Ret (pc1, w1)" "proxy_alone n E pc1 w1 = Ret (pc', w')"
      by (auto simp: go_bind_Ret_iff)
    let ?s = "s\<lparr>sProxy := pc1, sWorld := w1, sErr := first_err (sErr s) (proxy_err pc1)\<rparr>"
    have st: "transact_step E s ?s" using transact_step.proxy [of s E pc1 w1] r(1) Suc.prems by simp
    obtain e where "(transact_step E)\<^sup>*\<^sup>* ?s (?s\<lparr>sProxy := pc', sWorld := w', sErr := e\<rparr>)"
      using Suc.IH [OF r(2), of ?s] Suc.prems(2) by auto
    with st have "(transact_step E)\<^sup>*\<^sup>* s (s\<lparr>sProxy := pc', sWorld := w', sErr := e\<rparr>)"
      by (simp add: converse_rtranclp_into_rtranclp)
    then show ?thesis by blast
  qed
qed

text \<open>From the start, the proxy can run to its end before the stream has made a step.\<close>

lemma proxy_ends_first:
  assumes "Transact dial conn t sub h = Inr s0"
  shows "\<exists>s err. (transact_step E)\<^sup>*\<^sup>* s0 s \<and> sProxy s = PEnd (Some err) \<and> sStream s = SStart \<and> wCtx (sWorld s) = None"
proof -
  have s0: "\<not> sPanic s0" "sProxy s0 = PLoop" "sStream s0 = SStart" "wCtx (sWorld s0) = None"
    "\<not> cLocked (wClient (sWorld s0))" "\<not> cLocked (wUpstream (sWorld s0))"
    using assms by (auto simp: Transact_def NewConnection_def split: sum.splits)
  let ?w = "sWorld s0" and ?s1 = "s0\<lparr>sProxy := PRead, sErr := first_err (sErr s0) None\<rparr>"
  have "proxy_step E (sProxy s0) ?w = Ret (PRead, ?w)" using s0 by simp
  from transact_step.proxy [of s0, OF s0(1) this] have st: "transact_step E s0 ?s1" by (simp add: proxy_err_def)
  obtain err h' c' u' where "proxy (eB E) (eSetEntry E) (eFeed E) (eUp E) (eGoOn E) (eArg0 E) (wHeap ?w, wClient ?w, wUpstream ?w, wTxn ?w) =
      Ret (Some err, h', c', u', wTxn ?w)"
    using proxy_fails [OF s0(5,6)] by blast
  then have al: "proxy_alone 10 E PRead ?w = Ret (PEnd (Some err), ?w\<lparr>wHeap := h', wClient := c', wUpstream := u', wTxn := wTxn ?w\<rparr>)"
    by (simp add: proxy_alone_proxy proxy_return_def)
  let ?s2 = "\<lambda>e. s0\<lparr>sProxy := PEnd (Some err), sWorld := ?w\<lparr>wHeap := h', wClient := c', wUpstream := u', wTxn := wTxn ?w\<rparr>, sErr := e\<rparr>"
  obtain e where run: "(transact_step E)\<^sup>*\<^sup>* ?s1 (?s2 e)" using proxy_alone_steps [OF al, of ?s1] s0(1) by auto
  show ?thesis by (intro exI conjI, rule converse_rtranclp_into_rtranclp [OF st run]) (simp_all add: s0)
qed

subsection \<open>Properties\<close>

abbreviation an_env :: "(memdb, memtxn) env" where
  "an_env \<equiv> \<lparr>eB = mem_badger, eSetEntry = mem_set_entry, eFeed = (\<lambda>ps. ([], ErrCanceled)), eUp = id, eGoOn = True,
     eArg0 = (\<lambda>s. []), eView = plain_view, eLogAppend = (\<lambda>m d. None), eDialLeader = Inl ErrCanceled\<rparr>"

text \<open>
  C12. However the goroutines of \<open>Transact\<close> are interleaved with each other and with the end of the context, none of
  them panics, nothing is sent to the client, at most one NUL byte is written for the redis server, and the
  transactor is as it was: no command is logged, no key locked or released and no database selected. The start signal
  of the subscriber is not given either.
\<close>

theorem transact_changes_nothing:
  assumes "Transact dial conn t sub h = Inr s0" "(transact_step E)\<^sup>*\<^sup>* s0 s"
  shows "\<not> sPanic s \<and> cPeer (wClient (sWorld s)) = snd conn \<and> out (cWriter (wUpstream (sWorld s))) \<in> {[], [CHR 0x00]} \<and>
    wTxn (sWorld s) = t \<and> sDidSignal (wSub (sWorld s)) = sDidSignal sub"
  using sys_inv_reach [OF assms(2) sys_inv_start [OF assms(1)]] by (auto simp: sys_inv_def front_ok_def)

lemma Transact_example: "\<exists>s. Transact (Inr (0, buffer)) (0, buffer) t0 a_subscriber empty_heap = Inr s"
  by (simp add: Transact_def)

text \<open>For instance when the proxy has read from the client, tried to forward and ended.\<close>

theorem transact_changes_nothing_witness:
  "\<exists>s0 s err. Transact (Inr (0, buffer)) (0, buffer) t0 a_subscriber empty_heap = Inr s0 \<and> (transact_step an_env)\<^sup>*\<^sup>* s0 s \<and>
     sProxy s = PEnd (Some err) \<and> \<not> sPanic s \<and> cPeer (wClient (sWorld s)) = buffer \<and> wTxn (sWorld s) = t0"
proof -
  obtain s0 where s0: "Transact (Inr (0, buffer)) (0, buffer) t0 a_subscriber empty_heap = Inr s0" using Transact_example by blast
  obtain s err where s: "(transact_step an_env)\<^sup>*\<^sup>* s0 s" "sProxy s = PEnd (Some err)" using proxy_ends_first [OF s0] by blast
  from transact_changes_nothing [OF s0 s(1)] s0 s show ?thesis by auto
qed

text \<open>
  C13. The group waits for the stream. \<open>Wait\<close>, and with it \<open>Transact\<close>, never returns without an error. But an error of
  one goroutine does not end the other: from the start, with the context alive, the proxy can fail before the stream
  has made a step, and then \<open>Wait\<close> still waits although no client will be served.
\<close>

theorem transact_waits_for_stream:
  assumes "Transact dial conn t sub h = Inr s0"
  shows "(\<forall>s r. (transact_step E)\<^sup>*\<^sup>* s0 s \<longrightarrow> Wait s = Ret r \<longrightarrow> r \<noteq> None) \<and>
    (\<exists>s err. (transact_step E)\<^sup>*\<^sup>* s0 s \<and> sProxy s = PEnd (Some err) \<and> sErr s \<noteq> None \<and> wCtx (sWorld s) = None \<and> Wait s = Blocked)"
proof (intro conjI allI impI)
  note inv = sys_inv_reach [OF _ sys_inv_start [OF assms]]
  show "r \<noteq> None" if "(transact_step E)\<^sup>*\<^sup>* s0 s" "Wait s = Ret r" for s r
    using inv [OF that(1)] Wait_ended [OF that(2)] unfolding sys_inv_def by blast
  obtain s err where s: "(transact_step E)\<^sup>*\<^sup>* s0 s" "sProxy s = PEnd (Some err)" "sStream s = SStart" "wCtx (sWorld s) = None"
    using proxy_ends_first [OF assms] by blast
  have "sErr s \<noteq> None" using inv [OF s(1)] s(2) by (simp add: sys_inv_def)
  moreover have "Wait s = Blocked" using s(2,3) by (simp add: Wait_def)
  ultimately show "\<exists>s err. (transact_step E)\<^sup>*\<^sup>* s0 s \<and> sProxy s = PEnd (Some err) \<and> sErr s \<noteq> None \<and> wCtx (sWorld s) = None \<and> Wait s = Blocked"
    using s by blast
qed

theorem transact_waits_for_stream_witness:
  "\<exists>s0 s err. Transact (Inr (0, buffer)) (0, buffer) t0 a_subscriber empty_heap = Inr s0 \<and> (transact_step an_env)\<^sup>*\<^sup>* s0 s \<and>
     sProxy s = PEnd (Some err) \<and> Wait s = Blocked"
proof -
  obtain s0 where s0: "Transact (Inr (0, buffer)) (0, buffer) t0 a_subscriber empty_heap = Inr s0" using Transact_example by blast
  from transact_waits_for_stream [OF s0, of an_env, THEN conjunct2] s0 show ?thesis by blast
qed

end
