(* ===== verification/Server.thy ===== *)
theory Server
  imports Go_Prelude
begin

text \<open>
  \<^verbatim>\<open>server/server.go\<close>, \<^verbatim>\<open>server/config.go\<close>, \<^verbatim>\<open>valkey/valkey.go\<close> and \<^verbatim>\<open>cmd/anarchoredis/main.go\<close>: the accept loop, its
  configuration, the child process of the redis server, and the program's exit status. No code of the repository passes
  the accept loop a handler, so it is modelled for any handler.

  The accept loop runs beside one goroutine per connection, all sharing a context that the first failing connection
  cancels. An execution is a list of events in the order they happen: a connection is accepted, accepting fails, the
  handler of a connection ends, or the caller cancels. A context keeps the first cause it is cancelled with.
\<close>

datatype 'c serve_event =
    Accepted 'c
  | AcceptFailed error
  | HandlerEnded "error option"
  | CallerCancelled error

record 'c serve_state =
  ctxCause :: "error option"
  handled :: "'c list"

definition cancel_cause :: "error \<Rightarrow> 'c serve_state \<Rightarrow> 'c serve_state" where
  "cancel_cause e s = (case ctxCause s of None \<Rightarrow> s\<lparr>ctxCause := Some e\<rparr> | Some _ \<Rightarrow> s)"

text \<open>
  \<open>Serve\<close> after entering a round of its loop with a live context. The first result is what it returns, \<open>None\<close> while it
  is still running at the end of the events.
\<close>

fun serve_loop :: "'c serve_event list \<Rightarrow> 'c serve_state \<Rightarrow> error option \<times> 'c serve_state" where
  "serve_loop [] s = (None, s)"
| "serve_loop (Accepted c # es) s =
     (let s' = s\<lparr>handled := handled s @ [c]\<rparr> in
      case ctxCause s' of Some e \<Rightarrow> (Some e, s') | None \<Rightarrow> serve_loop es s')"
| "serve_loop (AcceptFailed err # es) s = (case ctxCause s of Some e \<Rightarrow> (Some e, s) | None \<Rightarrow> (Some err, s))"
| "serve_loop (HandlerEnded (Some e) # es) s = serve_loop es (cancel_cause e s)"
| "serve_loop (HandlerEnded None # es) s = serve_loop es s"
| "serve_loop (CallerCancelled e # es) s = serve_loop es (cancel_cause e s)"

definition Serve :: "error option \<Rightarrow> 'c serve_event list \<Rightarrow> error option \<times> 'c serve_state" where
  "Serve cause es =
     (let s = \<lparr>ctxCause = cause, handled = []\<rparr> in
      case cause of Some e \<Rightarrow> (Some e, s) | None \<Rightarrow> serve_loop es s)"

subsection \<open>Configuration\<close>

record Config =
  cfgAddress :: string
  cfgMaxSize :: int
  cfgRedisServersAddrs :: "string list"

definition getMaxSize :: "Config \<Rightarrow> int" where
  "getMaxSize c = (if cfgMaxSize c = 0 then 512 * 1000000 else cfgMaxSize c)"

text \<open>\<open>parse\<close> is the argument parser of the library; a nil receiver is replaced by a fresh record the caller never sees.\<close>

definition Parse_Config :: "(Config \<Rightarrow> error option \<times> Config) \<Rightarrow> Config option \<Rightarrow> error option \<times> Config option" where
  "Parse_Config parse c =
     (case c of
        None \<Rightarrow> (fst (parse \<lparr>cfgAddress = [], cfgMaxSize = 0, cfgRedisServersAddrs = []\<rparr>), None)
      | Some cfg \<Rightarrow> (let (err, cfg') = parse cfg in (err, Some cfg')))"

subsection \<open>Creating the server\<close>

text \<open>\<open>listen\<close> opens the listening socket; the logger is left out.\<close>

record ('l, 'f) Server =
  sConfig :: Config
  sListener :: 'l
  sConnFunc :: 'f

definition New_server :: "(string \<Rightarrow> error + 'l) \<Rightarrow> Config \<Rightarrow> 'f \<Rightarrow> error + ('l, 'f) Server" where
  "New_server listen config f =
     (case listen (cfgAddress config) of
        Inl err \<Rightarrow> Inl err
      | Inr listener \<Rightarrow> Inr \<lparr>sConfig = config, sListener = listener, sConnFunc = f\<rparr>)"

subsection \<open>The child process\<close>

text \<open>\<open>start\<close>, \<open>cancel\<close> and \<open>wait\<close> are the outcomes of the methods of the process handle, here its argument list.\<close>

record Valkey =
  vRedisAddress :: string
  vCmd :: "string list option"

definition GetRedisAddress :: "Valkey \<Rightarrow> string" where
  "GetRedisAddress v = vRedisAddress v"

definition Start :: "error option \<Rightarrow> Valkey \<Rightarrow> error option \<times> Valkey" where
  "Start start v = (start, v\<lparr>vCmd := Some [''valkey-server'', ''--save=\"\"'', ''--port='' @ vRedisAddress v]\<rparr>)"

definition Stop :: "error option \<Rightarrow> error option \<Rightarrow> Valkey \<Rightarrow> (error option \<times> Valkey) go" where
  "Stop cancel wait v =
     (case vCmd v of
        None \<Rightarrow> Panic ''nil pointer dereference''
      | Some cmd \<Rightarrow>
          if cancel \<noteq> None then Ret (cancel, v)
          else if wait \<noteq> None then Ret (wait, v)
          else Ret (None, v\<lparr>vCmd := None\<rparr>))"

text \<open>\<^verbatim>\<open>cmd/anarchoredis/main.go\<close>: the exit status, given the outcome of \<open>Run\<close>, which is not in the repository.\<close>

definition main_status :: "error option \<Rightarrow> int" where
  "main_status run = (if run \<noteq> None then 1 else 0)"

subsection \<open>Properties\<close>

text \<open>The causes an execution offers for cancelling, in order.\<close>

fun causes :: "'c serve_event list \<Rightarrow> error list" where
  "causes [] = []"
| "causes (HandlerEnded (Some e) # es) = e # causes es"
| "causes (CallerCancelled e # es) = e # causes es"
| "causes (x # es) = causes es"

definition accepts :: "'c serve_event \<Rightarrow> bool" where
  "accepts x = (case x of Accepted c \<Rightarrow> True | AcceptFailed e \<Rightarrow> True | _ \<Rightarrow> False)"

lemma serve_loop_cancelled:
  "ctxCause s = Some e \<Longrightarrow> (\<exists>x \<in> set es. accepts x) \<Longrightarrow> fst (serve_loop es s) = Some e"
  by (induction es s rule: serve_loop.induct) (auto simp: accepts_def cancel_cause_def Let_def)

lemma serve_event_cases [case_names Accepted AcceptFailed Failed Ended Cancelled]:
  obtains c where "x = Accepted c" | e where "x = AcceptFailed e" | e where "x = HandlerEnded (Some e)"
  | "x = HandlerEnded None" | e where "x = CallerCancelled e"
  by (cases x) (auto simp: not_None_eq)

lemma serve_loop_quiet:
  "causes before = [] \<Longrightarrow> \<forall>x \<in> set before. \<forall>e. x \<noteq> AcceptFailed e \<Longrightarrow>
   serve_loop (before @ es) \<lparr>ctxCause = None, handled = hs\<rparr> =
   serve_loop es \<lparr>ctxCause = None, handled = hs @ concat (map (\<lambda>y. case y of Accepted c \<Rightarrow> [c] | _ \<Rightarrow> []) before)\<rparr>"
proof (induction before arbitrary: hs)
  case (Cons x before)
  then show ?case by (cases x rule: serve_event_cases) simp_all
qed simp

text \<open>
  C40. The server ends with the first failure. When a connection's handler fails or the caller cancels while the loop is
  running, and accepting returns once more, \<open>Serve\<close> returns that first cause, whatever other failures follow; as long
  as there is no cause, every accepted connection is handed to the handler, in order, and the loop goes on.
\<close>

theorem serve_returns_first_cause:
  assumes "causes before = []" "\<forall>x \<in> set before. \<forall>e. x \<noteq> AcceptFailed e" "causes [x] = [cause]" "\<exists>y \<in> set after. accepts y"
  shows "fst (Serve None (before @ x # after)) = Some cause \<and>
    Serve None before = (None, \<lparr>ctxCause = None, handled = concat (map (\<lambda>y. case y of Accepted c \<Rightarrow> [c] | _ \<Rightarrow> []) before)\<rparr>)"
proof -
  have "fst (serve_loop (x # after) \<lparr>ctxCause = None, handled = hs\<rparr>) = Some cause" for hs
    using assms(3) serve_loop_cancelled [of "\<lparr>ctxCause = Some cause, handled = hs\<rparr>" cause after, OF _ assms(4)]
    by (cases x rule: serve_event_cases) (auto simp: cancel_cause_def)
  then show ?thesis
    using serve_loop_quiet [OF assms(1,2), of "x # after" "[]"] serve_loop_quiet [OF assms(1,2), of "[]" "[]"] by (simp add: Serve_def)
qed

theorem serve_returns_first_cause_witness:
  "fst (Serve None [Accepted (1 :: nat), HandlerEnded None, HandlerEnded (Some EOF), HandlerEnded (Some ErrCanceled), AcceptFailed (New ''closed'')]) = Some EOF"
  using serve_returns_first_cause [of "[Accepted (1 :: nat), HandlerEnded None]" "HandlerEnded (Some EOF)" EOF
      "[HandlerEnded (Some ErrCanceled), AcceptFailed (New ''closed'')]"]
  by (simp add: accepts_def)

end
