(* ===== verification/Conn_Wait.thy ===== *)
theory Conn_Wait
  imports Conn
begin

text \<open>
  Goroutines that share a connection of \<^verbatim>\<open>protocol/conn.go\<close> whose peer stays connected.

  In \<open>Conn\<close> a method is one step and everything it will read has arrived. Here a method is two steps, entering and
  returning, and the peer may send bytes or close the connection at any time. Whether a method has to wait for the mutex
  and whether it takes it is not written into the steps but read off the methods of \<open>Conn\<close>: a method can enter when its
  definition does not block on the connection as it stands, and it holds the mutex from then on if its definition blocks
  on a locked connection. A method works on the connection as it was when it entered and stores its own result, so methods
  that were inside together would overwrite each other's work. A \<open>Read\<close>
  that uses up all that has arrived from a peer that is still connected does not return: it waits for more, holding the
  mutex. That it uses up everything shows in its outcome, which then depends on the error at the end of the stream.
\<close>

datatype call = CallRead | CallWrite message | CallFlush

datatype outcome =
    OfRead "message \<times> error option"
  | OfWrite "nat \<times> error option"
  | OfFlush "error option"

definition do_call :: "call \<Rightarrow> outcome conn_op" where
  "do_call c st =
     (case c of
        CallRead \<Rightarrow> go_bind (Conn_Read st) (\<lambda>(x, st'). Ret (OfRead x, st'))
      | CallWrite m \<Rightarrow> go_bind (Conn_Write m st) (\<lambda>(x, st'). Ret (OfWrite x, st'))
      | CallFlush \<Rightarrow> go_bind (Conn_Flush st) (\<lambda>(x, st'). Ret (OfFlush x, st')))"

datatype caller = Idle | Wants call | Inside call

text \<open>\<open>xLog\<close> lists the calls that have returned, in the order they gave the mutex back.\<close>

record shared =
  xHeap :: heap
  xConn :: Conn
  xOpen :: bool
  xLog :: "(call \<times> outcome) list"

text \<open>\<open>xView\<close> is the connection as each goroutine found it when it last entered a method.\<close>

record conn_sys = shared +
  xCallers :: "nat \<Rightarrow> caller"
  xView :: "nat \<Rightarrow> Conn"

subsection \<open>What arrives\<close>

definition with_final :: "error \<Rightarrow> rid \<Rightarrow> heap \<Rightarrow> heap" where
  "with_final e r h = (case objs h r of Src s \<Rightarrow> h\<lparr>objs := (objs h)(r := Src (s\<lparr>final := e\<rparr>))\<rparr> | _ \<Rightarrow> h)"

definition waits :: "rid \<Rightarrow> heap \<Rightarrow> bool" where
  "waits r h \<longleftrightarrow> fst (Decode r (with_final EOF r h)) \<noteq> fst (Decode r (with_final ErrCanceled r h))"

definition arrive :: "bytes \<Rightarrow> rid \<Rightarrow> heap \<Rightarrow> heap" where
  "arrive bs r h = (case objs h r of Src s \<Rightarrow> h\<lparr>objs := (objs h)(r := Src (s\<lparr>chunks := chunks s @ [bs]\<rparr>))\<rparr> | _ \<Rightarrow> h)"

definition can_return :: "call \<Rightarrow> 'a shared_scheme \<Rightarrow> bool" where
  "can_return c s \<longleftrightarrow> c = CallRead \<longrightarrow> \<not> (xOpen s \<and> waits (cReader (xConn s)) (xHeap s))"

definition unlocked :: "Conn \<Rightarrow> Conn" where
  "unlocked c = c\<lparr>cLocked := False\<rparr>"

text \<open>A method takes the mutex if it cannot run on a connection whose mutex is taken.\<close>

definition blocks :: "'a go \<Rightarrow> bool" where
  "blocks r = (case r of Blocked \<Rightarrow> True | _ \<Rightarrow> False)"

definition takes_mutex :: "call \<Rightarrow> heap \<Rightarrow> Conn \<Rightarrow> bool" where
  "takes_mutex c h p \<longleftrightarrow> blocks (do_call c (h, p\<lparr>cLocked := True\<rparr>))"

subsection \<open>Steps\<close>

text \<open>\<open>sends\<close> says what the peer may send, \<open>closes\<close> whether it may end the connection.\<close>

inductive conn_step :: "(bytes \<Rightarrow> bool) \<Rightarrow> bool \<Rightarrow> conn_sys \<Rightarrow> conn_sys \<Rightarrow> bool" for sends closes where
  call: "xCallers s i = Idle \<Longrightarrow> conn_step sends closes s (s\<lparr>xCallers := (xCallers s)(i := Wants c)\<rparr>)"
| enter: "xCallers s i = Wants c \<Longrightarrow> \<not> blocks (do_call c (xHeap s, xConn s)) \<Longrightarrow>
    conn_step sends closes s
      (s\<lparr>xConn := (xConn s)\<lparr>cLocked := cLocked (xConn s) \<or> takes_mutex c (xHeap s) (xConn s)\<rparr>,
         xCallers := (xCallers s)(i := Inside c), xView := (xView s)(i := xConn s)\<rparr>)"
| return: "xCallers s i = Inside c \<Longrightarrow> can_return c s \<Longrightarrow> do_call c (xHeap s, unlocked (xView s i)) = Ret (x, h, p) \<Longrightarrow>
    conn_step sends closes s
      (s\<lparr>xHeap := h, xConn := p\<lparr>cLocked := cLocked (xConn s) \<and> \<not> takes_mutex c (xHeap s) (xView s i)\<rparr>,
         xLog := xLog s @ [(c, x)], xCallers := (xCallers s)(i := Idle)\<rparr>)"
| arrive: "xOpen s \<Longrightarrow> sends bs \<Longrightarrow> bs \<noteq> [] \<Longrightarrow> conn_step sends closes s (s\<lparr>xHeap := arrive bs (cReader (xConn s)) (xHeap s)\<rparr>)"
| close: "xOpen s \<Longrightarrow> closes \<Longrightarrow> conn_step sends closes s (s\<lparr>xOpen := False\<rparr>)"

inductive_cases conn_stepE: "conn_step sends closes s s'"

text \<open>The same with every method as one step, on a connection that is never locked in between.\<close>

inductive atomic_step :: "(bytes \<Rightarrow> bool) \<Rightarrow> bool \<Rightarrow> shared \<Rightarrow> shared \<Rightarrow> bool" for sends closes where
  atomic_call: "can_return c s \<Longrightarrow> do_call c (xHeap s, xConn s) = Ret (x, h, p) \<Longrightarrow>
    atomic_step sends closes s (s\<lparr>xHeap := h, xConn := p, xLog := xLog s @ [(c, x)]\<rparr>)"
| atomic_arrive: "xOpen s \<Longrightarrow> sends bs \<Longrightarrow> bs \<noteq> [] \<Longrightarrow> atomic_step sends closes s (s\<lparr>xHeap := arrive bs (cReader (xConn s)) (xHeap s)\<rparr>)"
| atomic_close: "xOpen s \<Longrightarrow> closes \<Longrightarrow> atomic_step sends closes s (s\<lparr>xOpen := False\<rparr>)"

definition conn_start :: "heap \<Rightarrow> Conn \<Rightarrow> conn_sys" where
  "conn_start h c = \<lparr>xHeap = h, xConn = c, xOpen = True, xLog = [], xCallers = (\<lambda>i. Idle), xView = (\<lambda>i. c)\<rparr>"

text \<open>What the goroutines share, seen with the mutex free.\<close>

definition abs_conn :: "conn_sys \<Rightarrow> shared" where
  "abs_conn s = \<lparr>xHeap = xHeap s, xConn = unlocked (xConn s), xOpen = xOpen s, xLog = xLog s\<rparr>"

subsection \<open>Mutual exclusion and refinement\<close>

definition holds :: "conn_sys \<Rightarrow> nat \<Rightarrow> bool" where
  "holds s i \<longleftrightarrow> (\<exists>c. xCallers s i = Inside c)"

definition mutex_inv :: "conn_sys \<Rightarrow> bool" where
  "mutex_inv s \<longleftrightarrow> (\<forall>i j. holds s i \<longrightarrow> holds s j \<longrightarrow> i = j) \<and> (cLocked (xConn s) \<longleftrightarrow> (\<exists>i. holds s i)) \<and>
     (\<forall>i. holds s i \<longrightarrow> unlocked (xView s i) = unlocked (xConn s))"

lemma do_call_releases: "do_call c (h, p) = Ret (x, h', p') \<Longrightarrow> \<not> cLocked p'"
  by (auto simp: do_call_def go_bind_Ret_iff split: call.splits dest: rd.releases cw.releases fl.releases)

lemma do_call_held: "cLocked p \<Longrightarrow> blocks (do_call c (h, p))"
  by (cases c) (simp_all add: blocks_def do_call_def rd.held_blocks cw.held_blocks fl.held_blocks)

lemma takes_mutex_always: "takes_mutex c h p"
  by (simp add: takes_mutex_def do_call_held)

lemma mutex_inv_step: "conn_step sends closes s s' \<Longrightarrow> mutex_inv s \<Longrightarrow> mutex_inv s'"
proof (induction rule: conn_step.induct)
  case (call s i c)
  then have "holds (s\<lparr>xCallers := (xCallers s)(i := Wants c)\<rparr>) j = holds s j" for j by (auto simp: holds_def)
  then show ?case using call.prems by (simp add: mutex_inv_def)
next
  case (enter s i c)
  then have "\<not> cLocked (xConn s)" using do_call_held by blast
  then show ?case using enter.prems by (auto simp: mutex_inv_def holds_def takes_mutex_always unlocked_def)
next
  case (return s i c x h p)
  have "holds s i" using return.hyps(1) by (simp add: holds_def)
  then have "\<not> holds s j" if "j \<noteq> i" for j using return.prems that by (auto simp: mutex_inv_def)
  then show ?case by (auto simp: mutex_inv_def holds_def takes_mutex_always)
qed (auto simp: mutex_inv_def holds_def)

lemma mutex_inv_start: "\<not> cLocked c \<Longrightarrow> mutex_inv (conn_start h c)"
  by (simp add: conn_start_def mutex_inv_def holds_def)

lemma mutex_inv_reach: "(conn_step sends closes)\<^sup>*\<^sup>* s s' \<Longrightarrow> mutex_inv s \<Longrightarrow> mutex_inv s'"
  by (induction rule: rtranclp_induct) (blast intro: mutex_inv_step)+

lemma can_return_abs: "can_return c (abs_conn s) = can_return c s"
  by (simp add: can_return_def abs_conn_def unlocked_def)

lemma unlocked_id: "\<not> cLocked p \<Longrightarrow> unlocked p = p"
  by (simp add: unlocked_def)

lemma unlocked_locked: "unlocked (p\<lparr>cLocked := b\<rparr>) = unlocked p"
  by (simp add: unlocked_def)

lemma conn_step_atomic:
  "conn_step sends closes s s' \<Longrightarrow> mutex_inv s \<Longrightarrow> abs_conn s' = abs_conn s \<or> atomic_step sends closes (abs_conn s) (abs_conn s')"
proof (induction rule: conn_step.induct)
  case (return s i c x h p)
  have p: "unlocked p = p" by (rule unlocked_id [OF do_call_releases [OF return.hyps(3)]])
  have "holds s i" using return.hyps(1) by (simp add: holds_def)
  then have "unlocked (xView s i) = unlocked (xConn s)" using return.prems by (simp add: mutex_inv_def)
  then have "do_call c (xHeap s, unlocked (xConn s)) = Ret (x, h, p)" using return.hyps(3) by simp
  then show ?case
    using atomic_step.atomic_call [of c "abs_conn s" x h p sends closes] return.hyps(2) p
    by (simp add: can_return_abs) (simp add: abs_conn_def unlocked_locked)
next
  case (arrive s bs)
  then show ?case using atomic_step.atomic_arrive [of "abs_conn s" sends bs closes] by (simp add: abs_conn_def unlocked_def)
next
  case (close s)
  then show ?case using atomic_step.atomic_close [of "abs_conn s" closes sends] by (simp add: abs_conn_def)
qed (simp_all add: abs_conn_def unlocked_locked)

lemma conn_reach_atomic:
  "(conn_step sends closes)\<^sup>*\<^sup>* s s' \<Longrightarrow> mutex_inv s \<Longrightarrow> (atomic_step sends closes)\<^sup>*\<^sup>* (abs_conn s) (abs_conn s')"
proof (induction rule: rtranclp_induct)
  case (step s1 s2)
  have "mutex_inv s1" by (rule mutex_inv_reach [OF step.hyps(1) step.prems])
  then show ?case using step conn_step_atomic [OF step.hyps(2)] by (metis rtranclp.rtrancl_into_rtrancl)
qed simp

subsection \<open>A peer that only sends replies\<close>

definition replies :: "bytes \<Rightarrow> bool" where
  "replies bs \<longleftrightarrow> (\<exists>v. scalar_msg v \<noteq> None \<and> bs = wire v)"

definition fed :: "rid \<Rightarrow> heap \<Rightarrow> bool" where
  "fed r h \<longleftrightarrow> solid r h \<and> (\<exists>vs. list_all (\<lambda>v. scalar_msg v \<noteq> None) vs \<and> hleft r h = concat (map wire vs))"

lemma with_final_view:
  assumes "solid r h"
  shows "solid r (with_final e r h)" "hleft r (with_final e r h) = hleft r h" "hfin r (with_final e r h) = e"
  using assms by (auto simp: solid_def with_final_def heap_view_Src rest_def)

lemma fed_waits:
  assumes "fed r h"
  shows "waits r h"
proof -
  obtain vs where vs: "solid r h" "list_all (\<lambda>v. scalar_msg v \<noteq> None) vs" "hleft r h = concat (map wire vs)"
    using assms by (auto simp: fed_def)
  have "fst (Decode r (with_final e r h)) = (zero_msg, Some e)" for e
    using Iterate_scalars [OF vs(2) with_final_view(1) [OF vs(1)], of e] vs(3) with_final_view(2,3) [OF vs(1), of e]
    by (auto simp: Decode_def)
  then show ?thesis by (simp add: waits_def)
qed

lemma fed_arrive:
  assumes "fed r h" "replies bs" "bs \<noteq> []"
  shows "fed r (arrive bs r h)"
proof -
  obtain vs v where vs: "list_all (\<lambda>v. scalar_msg v \<noteq> None) vs" "hleft r h = concat (map wire vs)"
    and v: "scalar_msg v \<noteq> None" "bs = wire v"
    using assms by (auto simp: fed_def replies_def)
  obtain s where s: "objs h r = Src s" "[] \<notin> set (chunks s)" using assms(1) by (auto simp: fed_def solid_def)
  have "solid r (arrive bs r h)" using s assms(3) by (simp add: solid_def arrive_def)
  moreover have "hleft r (arrive bs r h) = concat (map wire (vs @ [v]))"
    using s vs(2) v(2) by (simp add: arrive_def heap_view_Src rest_def)
  moreover have "list_all (\<lambda>v. scalar_msg v \<noteq> None) (vs @ [v])" using vs(1) v(1) by simp
  ultimately show ?thesis unfolding fed_def by blast
qed

text \<open>While a \<open>Read\<close> holds the mutex, nothing but requests for it and arrivals can happen.\<close>

definition starving :: "nat \<Rightarrow> conn_sys \<Rightarrow> conn_sys \<Rightarrow> bool" where
  "starving i s0 s \<longleftrightarrow> mutex_inv s \<and> xCallers s i = Inside CallRead \<and> xOpen s \<and> fed (cReader (xConn s)) (xHeap s) \<and>
     xConn s = xConn s0 \<and> xLog s = xLog s0"

lemma starving_step: "conn_step replies False s s' \<Longrightarrow> starving i s0 s \<Longrightarrow> starving i s0 s'"
proof -
  assume st: "conn_step replies False s s'" and inv: "starving i s0 s"
  have m: "mutex_inv s'" using mutex_inv_step [OF st] inv by (simp add: starving_def)
  have lk: "cLocked (xConn s)" "xCallers s i = Inside CallRead" using inv by (auto simp: starving_def mutex_inv_def holds_def)
  from st show ?thesis
  proof cases
    case (return j c x h p)
    then have "holds s j" "holds s i" using lk(2) by (simp_all add: holds_def)
    then have "j = i" using inv by (simp add: starving_def mutex_inv_def)
    then have "c = CallRead" using return(2) lk(2) by simp
    moreover have fed: "fed (cReader (xConn s)) (xHeap s)" "xOpen s" using inv unfolding starving_def by blast+
    moreover have "waits (cReader (xConn s)) (xHeap s)" by (rule fed_waits [OF fed(1)])
    ultimately show ?thesis using return(3) by (simp add: can_return_def)
  next
    case (arrive bs)
    have "fed (cReader (xConn s)) (xHeap s)" using inv unfolding starving_def by blast
    from fed_arrive [OF this arrive(3,4)] have "fed (cReader (xConn s)) (xHeap s')" using arrive(1) by simp
    then show ?thesis using arrive inv m by (simp add: starving_def)
  qed (use inv m lk in \<open>auto simp: starving_def\<close>)
qed

lemma starving_reach: "(conn_step replies False)\<^sup>*\<^sup>* s0 s \<Longrightarrow> starving i s0 s0 \<Longrightarrow> starving i s0 s"
  by (induction rule: rtranclp_induct) (auto intro: starving_step)

subsection \<open>Properties\<close>

text \<open>
  C10. The methods of a connection are atomic, because each of \<open>Read\<close>, \<open>Write\<close> and \<open>Flush\<close> takes the mutex before it
  touches the connection. From a free connection, however goroutines call, enter and return and are interleaved with
  arrivals, at most one is inside a method, the mutex is held exactly while one is, and the state with the mutex free is
  one that methods run as single steps, in the order they returned, reach too.
\<close>

theorem conn_calls_atomic:
  assumes "\<not> cLocked c" "(conn_step sends closes)\<^sup>*\<^sup>* (conn_start h c) s"
  shows "(\<forall>i j. holds s i \<and> holds s j \<longrightarrow> i = j) \<and> (cLocked (xConn s) \<longleftrightarrow> (\<exists>i. holds s i)) \<and>
    (atomic_step sends closes)\<^sup>*\<^sup>* \<lparr>xHeap = h, xConn = c, xOpen = True, xLog = []\<rparr> (abs_conn s)"
proof -
  have "abs_conn (conn_start h c) = \<lparr>xHeap = h, xConn = c, xOpen = True, xLog = []\<rparr>"
    using unlocked_id [OF assms(1)] by (simp add: abs_conn_def conn_start_def)
  with conn_reach_atomic [OF assms(2) mutex_inv_start [OF assms(1)]] mutex_inv_reach [OF assms(2) mutex_inv_start [OF assms(1)]]
  show ?thesis
    by (simp add: mutex_inv_def)
qed

text \<open>An example: one goroutine is inside \<open>Read\<close> after the reply to a ping, another wants to flush.\<close>

definition ping_answered :: heap where
  "ping_answered = one_reader [''+PONG'' @ EOL]"

definition two_callers :: conn_sys where
  "two_callers = (conn_start ping_answered a_conn)\<lparr>xConn := a_conn\<lparr>cLocked := True\<rparr>,
     xCallers := (\<lambda>i. Idle)(0 := Inside CallRead, 1 := Wants CallFlush)\<rparr>"

lemma read_enters: "\<not> cLocked p \<Longrightarrow> \<not> blocks (do_call CallRead (h, p))"
  using Iterate_single [of "cReader p" h] by (auto simp: blocks_def do_call_def Conn_Read_def with_lock_def Decode_def)

lemma two_callers_reached: "(conn_step sends closes)\<^sup>*\<^sup>* (conn_start ping_answered a_conn) two_callers"
proof -
  let ?s0 = "conn_start ping_answered a_conn"
  let ?s1 = "?s0\<lparr>xCallers := (xCallers ?s0)(0 := Wants CallRead)\<rparr>"
  let ?s2 = "?s1\<lparr>xConn := (xConn ?s1)\<lparr>cLocked := cLocked (xConn ?s1) \<or> takes_mutex CallRead (xHeap ?s1) (xConn ?s1)\<rparr>,
    xCallers := (xCallers ?s1)(0 := Inside CallRead), xView := (xView ?s1)(0 := xConn ?s1)\<rparr>"
  let ?s3 = "?s2\<lparr>xCallers := (xCallers ?s2)(1 := Wants CallFlush)\<rparr>"
  have a: "conn_step sends closes ?s0 ?s1" by (rule conn_step.call) (simp add: conn_start_def)
  have b: "conn_step sends closes ?s1 ?s2" by (rule conn_step.enter) (simp_all add: conn_start_def read_enters NewConnection_def)
  have c: "conn_step sends closes ?s2 ?s3" by (rule conn_step.call) (simp add: conn_start_def)
  have "?s3 = two_callers" by (simp add: two_callers_def conn_start_def fun_eq_iff takes_mutex_always)
  with converse_rtranclp_into_rtranclp [OF a converse_rtranclp_into_rtranclp [OF b r_into_rtranclp [of "conn_step sends closes", OF c]]]
  show ?thesis by simp
qed

theorem conn_calls_atomic_witness:
  "holds two_callers 0 \<and> cLocked (xConn two_callers) \<and>
   (atomic_step replies True)\<^sup>*\<^sup>* \<lparr>xHeap = ping_answered, xConn = a_conn, xOpen = True, xLog = []\<rparr> (abs_conn two_callers)"
proof -
  have free: "\<not> cLocked a_conn" by (simp add: NewConnection_def)
  have "holds two_callers 0" by (simp add: holds_def two_callers_def)
  with conn_calls_atomic [OF free two_callers_reached [of replies True]] show ?thesis by blast
qed

text \<open>
  C11. A \<open>Read\<close> from a healthy peer never returns and lets nobody else in. When what has arrived is a sequence of scalar
  replies, and the peer goes on sending such replies and stays connected, then in every continuation the goroutine inside
  \<open>Read\<close> stays there, no call of any goroutine returns, and nothing more is sent to the peer.
\<close>

theorem read_starves_connection:
  assumes "\<not> cLocked c" "(conn_step sends closes)\<^sup>*\<^sup>* (conn_start h c) s0"
    and "xCallers s0 i = Inside CallRead" "xOpen s0" "fed (cReader (xConn s0)) (xHeap s0)"
    and "(conn_step replies False)\<^sup>*\<^sup>* s0 s"
  shows "xCallers s i = Inside CallRead \<and> xLog s = xLog s0 \<and> cPeer (xConn s) = cPeer (xConn s0) \<and>
    (\<forall>j. j \<noteq> i \<longrightarrow> \<not> holds s j)"
proof -
  have "starving i s0 s0"
    using assms(3-5) mutex_inv_reach [OF assms(2) mutex_inv_start [OF assms(1)]] by (simp add: starving_def)
  then have st: "starving i s0 s" by (rule starving_reach [OF assms(6)])
  then have "holds s i" by (simp add: starving_def holds_def)
  with st show ?thesis by (auto simp: starving_def mutex_inv_def)
qed

theorem read_starves_connection_witness:
  "\<exists>s. conn_step replies False two_callers s \<and> hleft 0 (xHeap s) = ''+PONG'' @ EOL @ ''+OK'' @ EOL \<and>
     xCallers s 0 = Inside CallRead \<and> xLog s = [] \<and> \<not> holds s 1"
proof -
  have free: "\<not> cLocked a_conn" by (simp add: NewConnection_def)
  have in0: "xCallers two_callers 0 = Inside CallRead" "xOpen two_callers" by (simp_all add: two_callers_def conn_start_def)
  have rd: "cReader (xConn two_callers) = 0" "xHeap two_callers = ping_answered" "xLog two_callers = []"
    by (simp_all add: two_callers_def conn_start_def NewConnection_def)
  have sc: "scalar_msg (RSimple ''PONG'') \<noteq> None" "scalar_msg (RSimple ''OK'') \<noteq> None" by simp_all
  have left: "hleft 0 ping_answered = concat (map wire [RSimple ''PONG''])" by (simp add: ping_answered_def frame_def kind_defs)
  have "solid 0 ping_answered" unfolding ping_answered_def by (rule one_reader_solid) simp
  then have fed: "fed 0 ping_answered" unfolding fed_def using sc(1) left by (intro conjI exI [of _ "[RSimple ''PONG'']"]) simp_all
  let ?s = "two_callers\<lparr>xHeap := arrive (''+OK'' @ EOL) 0 ping_answered\<rparr>"
  have "replies (''+OK'' @ EOL)" unfolding replies_def using sc(2) by (intro exI [of _ "RSimple ''OK''"]) (simp add: frame_def kind_defs)
  then have st: "conn_step replies False two_callers ?s"
    using conn_step.arrive [of two_callers replies "''+OK'' @ EOL" False] in0(2) rd by simp
  have "hleft 0 (arrive (''+OK'' @ EOL) 0 ping_answered) = ''+PONG'' @ EOL @ ''+OK'' @ EOL"
    by (simp add: arrive_def ping_answered_def one_reader_def heap_view_Src rest_def)
  moreover have "xCallers ?s 0 = Inside CallRead \<and> xLog ?s = xLog two_callers \<and>
      cPeer (xConn ?s) = cPeer (xConn two_callers) \<and> (\<forall>j. j \<noteq> 0 \<longrightarrow> \<not> holds ?s j)"
    by (rule read_starves_connection [OF free two_callers_reached in0 _ r_into_rtranclp [of "conn_step replies False", OF st]])
      (simp add: rd fed)
  ultimately show ?thesis using st rd(3) by (intro exI [of _ ?s]) simp
qed

end
