(* ===== verification/Key_Wait.thy ===== *)
theory Key_Wait
  imports Key_Locker
begin

text \<open>
  \<open>AwaitUnlocked\<close> of \<^verbatim>\<open>anarchoredis/localstate/keylocker.go\<close> beside goroutines that lock and unlock keys.

  The waiter scans the database in one transaction, then subscribes, then is called with every batch the subscription
  delivers. Between these steps other goroutines may commit \<open>LockKeys\<close> and \<open>UnlockKeys\<close>. What the database delivers for a
  commit is the parameter \<open>pub\<close>, given the subscribed prefixes and the entries of the commit; a deleted key is an entry with
  an empty value. Its documented behaviour is the predicate \<open>delivers\<close>: exactly the entries under a subscribed prefix.
  Deliveries arrive later than their commit and in order, and commits before the subscription are not delivered.
\<close>

datatype waiter =
    WScan
  | WSubscribe "string list"
  | WWait "string list" "string list"
  | WEnd "error option"

text \<open>
  \<open>kPending\<close> are the batches on their way to the waiter and \<open>kSeen\<close> those it has been called with; \<open>kScanned\<close> remembers the
  database the scan saw and \<open>kFreed\<close> the keys that have been unlocked since.
\<close>

record 'db waiting =
  kDB :: 'db
  kWaiter :: waiter
  kPending :: "kvlist list"
  kSeen :: "kvlist list"
  kScanned :: "'db option"
  kFreed :: "string list"

type_synonym publish = "bytes list \<Rightarrow> kvlist \<Rightarrow> kvlist"

definition delivers :: "publish \<Rightarrow> bool" where
  "delivers pub \<longleftrightarrow> (\<forall>ps c. set (pub ps c) = {(x, v) \<in> set c. \<exists>p \<in> set ps. prefix p x})"

definition match_prefixes :: publish where
  "match_prefixes ps c = filter (\<lambda>(x, v). \<exists>p \<in> set ps. prefix p x) c"

definition await_begin :: "('db, 't) badger \<Rightarrow> string list \<Rightarrow> 'db \<Rightarrow> waiter" where
  "await_begin B keys db =
     (case View B db (\<lambda>t. await_scan B t keys []) of
        Inl err \<Rightarrow> WEnd None
      | Inr waitFor \<Rightarrow> if waitFor = [] then WEnd None else WSubscribe waitFor)"

text \<open>The callback of \<open>Subscribe\<close>; its error \<open>errDone\<close> ends the subscription, and \<open>AwaitUnlocked\<close> returns nil.\<close>

definition await_callback :: "string list \<Rightarrow> string list \<Rightarrow> kvlist \<Rightarrow> waiter" where
  "await_callback ps waitSet kvs =
     (let ws = seen_removed kvs waitSet in if ws \<noteq> [] then WWait ps ws else WEnd None)"

text \<open>A commit of another goroutine reaches a subscribed waiter if it has entries for it.\<close>

definition commit :: "publish \<Rightarrow> kvlist \<Rightarrow> 'db \<Rightarrow> 'db waiting \<Rightarrow> 'db waiting" where
  "commit pub c db s =
     (case kWaiter s of
        WWait ps ws \<Rightarrow> s\<lparr>kDB := db, kPending := kPending s @ (if pub ps c = [] then [] else [pub ps c])\<rparr>
      | _ \<Rightarrow> s\<lparr>kDB := db\<rparr>)"

abbreviation lock_entries :: "string list \<Rightarrow> kvlist" where
  "lock_entries ks \<equiv> map (\<lambda>k. (k, sentinel)) ks"

abbreviation unlock_entries :: "string list \<Rightarrow> kvlist" where
  "unlock_entries ks \<equiv> map (\<lambda>k. (keyprefix @ k, [])) ks"

inductive wait_step :: "('db, 't) badger \<Rightarrow> 't set_entry \<Rightarrow> publish \<Rightarrow> string list \<Rightarrow> 'db waiting \<Rightarrow> 'db waiting \<Rightarrow> bool"
  for B setEntry pub keys where
  scan: "kWaiter s = WScan \<Longrightarrow> wait_step B setEntry pub keys s (s\<lparr>kWaiter := await_begin B keys (kDB s), kScanned := Some (kDB s), kFreed := []\<rparr>)"
| subscribe: "kWaiter s = WSubscribe ws \<Longrightarrow> wait_step B setEntry pub keys s (s\<lparr>kWaiter := WWait ws ws\<rparr>)"
| deliver: "kWaiter s = WWait ps ws \<Longrightarrow> kPending s = kvs # later \<Longrightarrow>
    wait_step B setEntry pub keys s
      (s\<lparr>kWaiter := await_callback ps ws kvs, kPending := later, kSeen := kSeen s @ [kvs]\<rparr>)"
| cancelled: "kWaiter s = WWait ps ws \<Longrightarrow> \<not> errors_Is err ErrDone \<Longrightarrow>
    wait_step B setEntry pub keys s (s\<lparr>kWaiter := WEnd (Some err)\<rparr>)"
| unlock: "UnlockKeys B ks (kDB s) = (None, db) \<Longrightarrow> 
    wait_step B setEntry pub keys s ((commit pub (unlock_entries ks) db s)\<lparr>kFreed := kFreed s @ ks\<rparr>)"
| unlock_fails: "UnlockKeys B ks (kDB s) = (Some err, db) \<Longrightarrow> wait_step B setEntry pub keys s (s\<lparr>kDB := db\<rparr>)"
| lock: "lock_keys B setEntry ttl ks (kDB s) = (None, db) \<Longrightarrow> wait_step B setEntry pub keys s (commit pub (lock_entries ks) db s)"
| lock_fails: "lock_keys B setEntry ttl ks (kDB s) = (Some err, db) \<Longrightarrow> wait_step B setEntry pub keys s (s\<lparr>kDB := db\<rparr>)"

definition await_start :: "'db \<Rightarrow> 'db waiting" where
  "await_start db = \<lparr>kDB = db, kWaiter = WScan, kPending = [], kSeen = [], kScanned = None, kFreed = []\<rparr>"

subsection \<open>What the waiter has seen\<close>

abbreviation scan_keys :: "('db, 't) badger \<Rightarrow> string list \<Rightarrow> 'db \<Rightarrow> error + string list" where
  "scan_keys B keys db \<equiv> View B db (\<lambda>t. await_scan B t keys [])"

text \<open>What the position of the waiter says of the batches it has seen.\<close>

definition wait_inv :: "('db, 't) badger \<Rightarrow> string list \<Rightarrow> 'db waiting \<Rightarrow> bool" where
  "wait_inv B keys s =
     (case kWaiter s of
        WScan \<Rightarrow> kPending s = [] \<and> kSeen s = [] \<and> kScanned s = None
      | WSubscribe ws \<Rightarrow> kPending s = [] \<and> kSeen s = [] \<and> ws \<noteq> [] \<and> (\<exists>db. kScanned s = Some db \<and> scan_keys B keys db = Inr ws)
      | WWait ps ws \<Rightarrow> ps \<noteq> [] \<and> (\<exists>db. kScanned s = Some db \<and> scan_keys B keys db = Inr ps) \<and>
          (\<forall>bs fin. subscribe_loop (kSeen s @ bs) fin ps = subscribe_loop bs fin ws)
      | WEnd r \<Rightarrow> \<exists>db fin. kScanned s = Some db \<and> \<not> errors_Is fin ErrDone \<and> r = await_keys B (\<lambda>ps. (kSeen s, fin)) keys db)"

lemma wait_inv_scan:
  assumes "wait_inv B keys s" "kWaiter s = WScan"
  shows "wait_inv B keys (s\<lparr>kWaiter := await_begin B keys (kDB s), kScanned := Some (kDB s), kFreed := []\<rparr>)"
proof (cases "await_begin B keys (kDB s)")
  case (WEnd r)
  have "\<exists>fin. \<not> errors_Is fin ErrDone" by (rule exI [of _ ErrCanceled]) simp
  with WEnd assms show ?thesis
    by (auto simp: wait_inv_def await_begin_def await_keys_def split: sum.splits if_splits)
qed (use assms in \<open>auto simp: wait_inv_def await_begin_def split: sum.splits if_splits\<close>)

lemma wait_inv_deliver:
  assumes "wait_inv B keys s" "kWaiter s = WWait ps ws"
  shows "wait_inv B keys (s\<lparr>kWaiter := await_callback ps ws kvs, kPending := later, kSeen := kSeen s @ [kvs]\<rparr>)"
proof -
  obtain db where db: "kScanned s = Some db" "scan_keys B keys db = Inr ps" "ps \<noteq> []"
    and loop: "\<And>bs fin. subscribe_loop (kSeen s @ bs) fin ps = subscribe_loop bs fin ws"
    using assms by (auto simp: wait_inv_def)
  show ?thesis
  proof (cases "seen_removed kvs ws = []")
    case True
    then have "subscribe_loop (kSeen s @ [kvs]) ErrCanceled ps = ErrDone" by (simp add: loop Let_def)
    then have "await_keys B (\<lambda>ps. (kSeen s @ [kvs], ErrCanceled)) keys db = None" using db by (simp add: await_keys_def)
    moreover have "\<not> errors_Is ErrCanceled ErrDone" by simp
    ultimately show ?thesis using True db(1) by (auto simp: wait_inv_def await_callback_def intro!: exI [of _ ErrCanceled])
  next
    case False
    then show ?thesis using db loop by (simp add: wait_inv_def await_callback_def Let_def)
  qed
qed

lemma wait_inv_cancelled:
  assumes "wait_inv B keys s" "kWaiter s = WWait ps ws" "\<not> errors_Is err ErrDone"
  shows "wait_inv B keys (s\<lparr>kWaiter := WEnd (Some err)\<rparr>)"
proof -
  obtain db where db: "kScanned s = Some db" "scan_keys B keys db = Inr ps" "ps \<noteq> []"
    and loop: "\<And>bs fin. subscribe_loop (kSeen s @ bs) fin ps = subscribe_loop bs fin ws"
    using assms(1,2) by (auto simp: wait_inv_def)
  have "await_keys B (\<lambda>ps. (kSeen s, err)) keys db = Some err" using db loop [of "[]" err] assms(3) by (simp add: await_keys_def)
  with db(1) assms(3) show ?thesis by (auto simp: wait_inv_def intro!: exI [of _ err])
qed

lemma wait_inv_db: "wait_inv B keys s \<Longrightarrow> wait_inv B keys (s\<lparr>kDB := db\<rparr>)"
  by (cases "kWaiter s") (simp_all add: wait_inv_def)

lemma wait_inv_commit: "wait_inv B keys s \<Longrightarrow> wait_inv B keys (commit pub c db s)"
  by (cases "kWaiter s") (simp_all add: wait_inv_def commit_def)

lemma wait_inv_freed: "wait_inv B keys s \<Longrightarrow> wait_inv B keys (s\<lparr>kFreed := ks\<rparr>)"
  by (cases "kWaiter s") (simp_all add: wait_inv_def)

lemma wait_inv_step: "wait_step B setEntry pub keys s s' \<Longrightarrow> wait_inv B keys s \<Longrightarrow> wait_inv B keys s'"
proof (induction rule: wait_step.induct)
  case (subscribe s ws)
  then show ?case by (auto simp: wait_inv_def)
qed (blast intro: wait_inv_scan wait_inv_deliver wait_inv_cancelled wait_inv_commit wait_inv_db wait_inv_freed)+

lemma wait_inv_start: "wait_inv B keys (await_start db0)"
  by (simp add: await_start_def wait_inv_def)

lemma wait_inv_reach:
  "(wait_step B setEntry pub keys)\<^sup>*\<^sup>* (await_start db0) s \<Longrightarrow> wait_inv B keys s"
  by (induction rule: rtranclp_induct) (blast intro: wait_inv_start wait_inv_step)+

subsection \<open>What reaches the waiter\<close>

text \<open>With keys that do not overlap with the lock prefix, only the entries of \<open>LockKeys\<close> are delivered.\<close>

definition apart :: "string list \<Rightarrow> bool" where
  "apart ks \<longleftrightarrow> (\<forall>k \<in> set ks. \<not> prefix k keyprefix \<and> \<not> prefix keyprefix k)"

definition only_locks :: "kvlist list \<Rightarrow> bool" where
  "only_locks bs \<longleftrightarrow> (\<forall>kvs \<in> set bs. \<forall>(x, v) \<in> set kvs. v = sentinel)"

definition deaf :: "string list \<Rightarrow> 'db waiting \<Rightarrow> bool" where
  "deaf keys s \<longleftrightarrow> only_locks (kPending s) \<and> only_locks (kSeen s) \<and>
     (case kWaiter s of WSubscribe ws \<Rightarrow> set ws \<subseteq> set keys | WWait ps ws \<Rightarrow> set ps \<subseteq> set keys \<and> ws = ps | _ \<Rightarrow> True)"

lemma await_scan_subset: "await_scan B t keys ws = Inr ws' \<Longrightarrow> set ws' \<subseteq> set ws \<union> set keys"
  by (induction keys arbitrary: ws) (force split: sum.splits if_splits)+

lemma scan_keys_subset: "scan_keys B keys db = Inr ws \<Longrightarrow> set ws \<subseteq> set keys"
  using await_scan_subset [of B "NewTransaction B db" keys "[]" ws] by (auto simp: View_def split: option.splits)

lemma seen_removed_locks: "\<forall>(x, v) \<in> set kvs. v = sentinel \<Longrightarrow> seen_removed kvs ws = ws"
  by (induction kvs arbitrary: ws) (auto simp: seen_removed_def)

lemma pub_unlock:
  assumes "delivers pub" "apart keys" "set ps \<subseteq> set keys"
  shows "pub ps (unlock_entries ks) = []"
proof -
  have "\<not> prefix p (keyprefix @ k)" if "p \<in> set ps" for p k
    using that assms(2,3) prefix_same_cases [of p "keyprefix @ k" keyprefix] by (auto simp: apart_def)
  moreover have "set (pub ps (unlock_entries ks)) = {(x, v) \<in> set (unlock_entries ks). \<exists>p \<in> set ps. prefix p x}"
    using assms(1) unfolding delivers_def by blast
  ultimately have "set (pub ps (unlock_entries ks)) = {}" by auto
  then show ?thesis by simp
qed

lemma pub_lock: "delivers pub \<Longrightarrow> only_locks [pub ps (lock_entries ks)]"
  by (auto simp: delivers_def only_locks_def)

lemma deaf_commit_unlock: "delivers pub \<Longrightarrow> apart keys \<Longrightarrow> deaf keys s \<Longrightarrow> deaf keys (commit pub (unlock_entries ks) db s)"
  by (auto simp: deaf_def commit_def pub_unlock split: waiter.splits)

lemma deaf_commit_lock: "delivers pub \<Longrightarrow> deaf keys s \<Longrightarrow> deaf keys (commit pub (lock_entries ks) db s)"
  using pub_lock by (fastforce simp: deaf_def commit_def only_locks_def split: waiter.splits)

lemma deaf_step:
  assumes "delivers pub" "apart keys"
  shows "wait_step B setEntry pub keys s s' \<Longrightarrow> deaf keys s \<Longrightarrow> wait_inv B keys s \<Longrightarrow> deaf keys s'"
proof (induction rule: wait_step.induct)
  case (scan s)
  then show ?case using scan_keys_subset [of B "kDB s" keys] by (auto simp: deaf_def await_begin_def split: sum.splits)
next
  case (unlock ks s db)
  then have "deaf keys (commit pub (unlock_entries ks) db s)" by (intro deaf_commit_unlock assms)
  then show ?case by (simp add: deaf_def)
next
  case (lock ttl ks s db)
  then show ?case by (intro deaf_commit_lock assms)
next
  case (deliver s ps ws kvs later)
  then have ws: "ws = ps" "only_locks (kPending s)" "ps \<noteq> []" by (auto simp: deaf_def wait_inv_def)
  have l: "\<forall>(x, v) \<in> set kvs. v = sentinel" "only_locks later" using ws(2) deliver.hyps(2) by (simp_all add: only_locks_def)
  have "only_locks (kSeen s @ [kvs])" using l(1) deliver.prems(1) by (simp add: deaf_def only_locks_def)
  then show ?case using ws l seen_removed_locks [OF l(1)] deliver.hyps deliver.prems(1) by (simp add: deaf_def await_callback_def)
qed (simp_all add: deaf_def split: waiter.splits)

lemma deaf_reach:
  assumes "delivers pub" "apart keys"
  shows "(wait_step B setEntry pub keys)\<^sup>*\<^sup>* (await_start db0) s \<Longrightarrow> deaf keys s"
proof (induction rule: rtranclp_induct)
  case base
  show ?case by (simp add: await_start_def deaf_def only_locks_def)
next
  case (step s s')
  show ?case by (rule deaf_step [OF assms step.hyps(2) step.IH wait_inv_reach [OF step.hyps(1)]])
qed

lemma only_locks_released: "only_locks bs \<Longrightarrow> \<not> released bs k"
  by (auto simp: only_locks_def released_def)

lemma match_prefixes_delivers: "delivers match_prefixes"
  by (auto simp: delivers_def match_prefixes_def)

text \<open>Whatever reaches the waiter and is not a lock is an unlock committed since the scan.\<close>

definition fresh_ok :: "string list \<Rightarrow> kvlist \<Rightarrow> bool" where
  "fresh_ok freed kvs \<longleftrightarrow> (\<forall>(x, v) \<in> set kvs. v \<noteq> sentinel \<longrightarrow> (\<exists>k \<in> set freed. x = keyprefix @ k))"

definition from_unlocks :: "'db waiting \<Rightarrow> bool" where
  "from_unlocks s \<longleftrightarrow> (\<forall>kvs \<in> set (kPending s @ kSeen s). fresh_ok (kFreed s) kvs)"

lemma fresh_ok_more: "fresh_ok freed kvs \<Longrightarrow> fresh_ok (freed @ ks) kvs"
  by (auto simp: fresh_ok_def)

lemma from_unlocks_unlock:
  assumes "delivers pub" "from_unlocks s"
  shows "from_unlocks ((commit pub (unlock_entries ks) db s)\<lparr>kFreed := kFreed s @ ks\<rparr>)"
proof -
  have "set (pub ps (unlock_entries ks)) \<subseteq> set (unlock_entries ks)" for ps using assms(1) by (auto simp: delivers_def)
  then have "fresh_ok (kFreed s @ ks) (pub ps (unlock_entries ks))" for ps by (auto simp: fresh_ok_def)
  moreover have "\<forall>kvs \<in> set (kPending s @ kSeen s). fresh_ok (kFreed s @ ks) kvs"
    using assms(2) by (auto simp: from_unlocks_def intro: fresh_ok_more)
  ultimately show ?thesis by (cases "kWaiter s") (simp_all add: from_unlocks_def commit_def)
qed

lemma from_unlocks_lock:
  assumes "delivers pub" "from_unlocks s"
  shows "from_unlocks (commit pub (lock_entries ks) db s)"
proof -
  have "set (pub ps (lock_entries ks)) \<subseteq> set (lock_entries ks)" for ps using assms(1) by (auto simp: delivers_def)
  then have "fresh_ok (kFreed s) (pub ps (lock_entries ks))" for ps by (auto simp: fresh_ok_def)
  then show ?thesis using assms(2) by (cases "kWaiter s") (simp_all add: from_unlocks_def commit_def)
qed

lemma from_unlocks_step:
  assumes "delivers pub"
  shows "wait_step B setEntry pub keys s s' \<Longrightarrow> from_unlocks s \<Longrightarrow> wait_inv B keys s \<Longrightarrow> from_unlocks s'"
proof (induction rule: wait_step.induct)
  case (scan s)
  then show ?case by (simp add: from_unlocks_def wait_inv_def)
next
  case (unlock ks s db)
  then show ?case by (intro from_unlocks_unlock assms)
next
  case (lock ttl ks s db)
  then show ?case by (intro from_unlocks_lock assms)
qed (auto simp: from_unlocks_def)

lemma from_unlocks_reach:
  assumes "delivers pub"
  shows "(wait_step B setEntry pub keys)\<^sup>*\<^sup>* (await_start db0) s \<Longrightarrow> from_unlocks s"
proof (induction rule: rtranclp_induct)
  case base
  show ?case by (simp add: await_start_def from_unlocks_def)
next
  case (step s s')
  show ?case by (rule from_unlocks_step [OF assms step.hyps(2) step.IH wait_inv_reach [OF step.hyps(1)]])
qed

lemma TrimPrefix_added: "TrimPrefix (p @ k) p = k"
  by (simp add: TrimPrefix_def)

lemma from_unlocks_released: "from_unlocks s \<Longrightarrow> released (kSeen s) k \<Longrightarrow> k \<in> set (kFreed s)"
  by (force simp: from_unlocks_def fresh_ok_def released_def TrimPrefix_added)

subsection \<open>An unlock beside the scan\<close>

abbreviation subscribing :: "'db \<Rightarrow> string \<Rightarrow> 'db waiting" where
  "subscribing db k \<equiv> \<lparr>kDB = db, kWaiter = WSubscribe [k], kPending = [], kSeen = [], kScanned = Some db, kFreed = []\<rparr>"

lemma scan_locked:
  assumes "badger_healthy B content tview tbase" "locked (content db) k"
  shows "wait_step B setEntry pub [k] (await_start db) (subscribing db k)"
proof -
  have "await_begin B [k] db = WSubscribe [k]"
    unfolding await_begin_def badger_healthy.View_await_scan [OF assms(1)] using assms(2) by simp
  then show ?thesis using wait_step.scan [of "await_start db" B setEntry pub "[k]"] by (simp add: await_start_def)
qed

text \<open>The key is unlocked after the scan and before the subscription.\<close>

lemma early_unlock_run:
  assumes "badger_healthy B content tview tbase" "locked (content db) k" "UnlockKeys B [k] db = (None, db')"
  shows "(wait_step B setEntry pub [k])\<^sup>*\<^sup>* (await_start db) ((subscribing db k)\<lparr>kDB := db', kWaiter := WWait [k] [k], kFreed := [k]\<rparr>)"
proof -
  let ?step = "wait_step B setEntry pub [k]" and ?s1 = "subscribing db k"
  have "?step ?s1 (?s1\<lparr>kDB := db', kFreed := [k]\<rparr>)"
    using wait_step.unlock [of B "[k]" ?s1 db' setEntry pub "[k]"] assms(3) by (simp add: commit_def)
  moreover have "?step (?s1\<lparr>kDB := db', kFreed := [k]\<rparr>) (?s1\<lparr>kDB := db', kWaiter := WWait [k] [k], kFreed := [k]\<rparr>)"
    using wait_step.subscribe [of "?s1\<lparr>kDB := db', kFreed := [k]\<rparr>" "[k]"] by simp
  ultimately show ?thesis using scan_locked [OF assms(1,2), of setEntry pub]
    by (meson converse_rtranclp_into_rtranclp r_into_rtranclp)
qed

text \<open>The key is unlocked after the subscription, which covers its lock entry.\<close>

lemma late_unlock_run:
  assumes "badger_healthy B content tview tbase" "locked (content db) k" "UnlockKeys B [k] db = (None, db')"
    and "delivers pub" "prefix k (keyprefix @ k)"
  shows "(wait_step B setEntry pub [k])\<^sup>*\<^sup>* (await_start db)
    \<lparr>kDB = db', kWaiter = WEnd None, kPending = [], kSeen = [pub [k] (unlock_entries [k])], kScanned = Some db, kFreed = [k]\<rparr>"
proof -
  let ?step = "wait_step B setEntry pub [k]" and ?s1 = "subscribing db k" and ?b = "pub [k] (unlock_entries [k])"
  let ?s2 = "?s1\<lparr>kWaiter := WWait [k] [k]\<rparr>" and ?s4 = "\<lparr>kDB = db', kWaiter = WEnd None, kPending = [], kSeen = [?b], kScanned = Some db, kFreed = [k]\<rparr>"
  let ?s3 = "?s2\<lparr>kDB := db', kPending := [?b], kFreed := [k]\<rparr>"
  have "set ?b = {(x, v) \<in> set (unlock_entries [k]). \<exists>p \<in> set [k]. prefix p x}"
    using assms(4) unfolding delivers_def by blast
  then have b: "(keyprefix @ k, []) \<in> set ?b" using assms(5) by simp
  then have "released [?b] k" by (auto simp: released_def sentinel_def TrimPrefix_added intro: bexI [of _ "(keyprefix @ k, [])"])
  then have "set (seen_removed ?b [k]) = {}" unfolding set_seen_removed by simp
  then have "await_callback [k] [k] ?b = WEnd None" by (simp add: await_callback_def)
  then have s4: "?step ?s3 ?s4" using wait_step.deliver [of ?s3 "[k]" "[k]" ?b "[]"] by simp
  have "?b \<noteq> []" using b by auto
  then have s3: "?step ?s2 ?s3" using wait_step.unlock [of B "[k]" ?s2 db' setEntry pub "[k]"] assms(3) by (simp add: commit_def)
  have s2: "?step ?s1 ?s2" using wait_step.subscribe [of ?s1 "[k]"] by simp
  show ?thesis
    by (rule converse_rtranclp_into_rtranclp [OF scan_locked [OF assms(1,2)] converse_rtranclp_into_rtranclp [OF s2
        converse_rtranclp_into_rtranclp [OF s3 r_into_rtranclp [of ?step, OF s4]]]])
qed

subsection \<open>Properties\<close>

text \<open>
  C28. A waiter is not released too early. On a healthy database whose subscription delivers exactly the entries under the
  subscribed prefixes, in every order of the steps: when \<open>AwaitUnlocked\<close> returns nil, each awaited key that its scan found
  locked has been unlocked by a committed \<open>UnlockKeys\<close> after the scan.
\<close>

theorem await_returns_after_unlock:
  assumes "badger_healthy B content tview tbase" "delivers pub"
    and "(wait_step B setEntry pub keys)\<^sup>*\<^sup>* (await_start db0) s" "kScanned s = Some db" "kWaiter s = WEnd None"
  shows "\<forall>k \<in> set keys. locked (content db) k \<longrightarrow> k \<in> set (kFreed s)"
proof -
  obtain fin where fin: "\<not> errors_Is fin ErrDone" "None = await_keys B (\<lambda>ps. (kSeen s, fin)) keys db"
    using wait_inv_reach [OF assms(3)] assms(4,5) by (auto simp: wait_inv_def)
  then have "\<forall>k \<in> set keys. locked (content db) k \<longrightarrow> released (kSeen s) k"
    using badger_healthy.await_keys_result [OF assms(1), of "\<lambda>ps. (kSeen s, fin)" keys db] by (auto split: if_splits)
  then show ?thesis using from_unlocks_released [OF from_unlocks_reach [OF assms(2,3)]] by blast
qed

abbreviation locked_a :: memdb where
  "locked_a \<equiv> lock_db [(keyprefix @ ''a'', sentinel)]"

lemma mem_unlock: "UnlockKeys mem_badger [k] (lock_db [(keyprefix @ k, sentinel)]) = (None, lock_db [])"
  by (simp add: UnlockKeys_def Update_def mem_badger_def mem_write_def)

lemma mem_locked: "locked (mem_content (lock_db [(keyprefix @ k, sentinel)])) k"
  by (simp add: locked_def mem_content_def)

lemma prefix_a: "prefix ''a'' (keyprefix @ ''a'')"
  by (simp add: keyprefix_def)

theorem await_returns_after_unlock_witness:
  "\<exists>s. (wait_step mem_badger mem_set_entry match_prefixes [''a''])\<^sup>*\<^sup>* (await_start locked_a) s \<and>
     kScanned s = Some locked_a \<and> kWaiter s = WEnd None \<and> locked (mem_content locked_a) ''a'' \<and> ''a'' \<in> set (kFreed s)"
proof -
  obtain s where s: "(wait_step mem_badger mem_set_entry match_prefixes [''a''])\<^sup>*\<^sup>* (await_start locked_a) s"
      "kScanned s = Some locked_a" "kWaiter s = WEnd None"
    by (rule that [OF late_unlock_run [OF mem.badger_healthy_axioms mem_locked mem_unlock match_prefixes_delivers prefix_a]]) simp_all
  from await_returns_after_unlock [OF mem.badger_healthy_axioms match_prefixes_delivers s] s mem_locked show ?thesis by auto
qed

text \<open>
  C29. No unlock wakes a waiter. On a healthy database whose subscription delivers exactly the entries under the subscribed
  prefixes, when no awaited key is a prefix of the lock prefix or starts with it and the scan found one of them locked, then in every order of the steps, whatever is locked and unlocked meanwhile, the waiter keeps waiting for every
  key it found locked and can only return with the error of its context.
\<close>

theorem await_never_woken:
  assumes "badger_healthy B content tview tbase" "delivers pub" "apart keys"
    and "(wait_step B setEntry pub keys)\<^sup>*\<^sup>* (await_start db0) s" "kScanned s = Some db" "\<exists>k \<in> set keys. locked (content db) k"
  shows "case kWaiter s of
      WScan \<Rightarrow> False
    | WSubscribe ws \<Rightarrow> ws = filter (locked (content db)) keys
    | WWait ps ws \<Rightarrow> ws = filter (locked (content db)) keys
    | WEnd r \<Rightarrow> r \<noteq> None"
proof -
  note inv = wait_inv_reach [OF assms(4)] and deaf = deaf_reach [OF assms(2-4)]
  have scan: "scan_keys B keys db = Inr (filter (locked (content db)) keys)"
    by (rule badger_healthy.View_await_scan [OF assms(1)])
  have "r \<noteq> None" if e: "kWaiter s = WEnd r" for r
  proof -
    obtain fin where fin: "\<not> errors_Is fin ErrDone" "r = await_keys B (\<lambda>ps. (kSeen s, fin)) keys db"
      using inv e assms(5) by (auto simp: wait_inv_def)
    have "\<not> released (kSeen s) k" for k using deaf only_locks_released by (auto simp: deaf_def)
    then show ?thesis
      using fin assms(6) badger_healthy.await_keys_result [OF assms(1), of "\<lambda>ps. (kSeen s, fin)" keys db] by auto
  qed
  then show ?thesis using inv deaf scan assms(5) by (cases "kWaiter s") (simp_all add: wait_inv_def deaf_def)
qed

abbreviation locked_k :: memdb where
  "locked_k \<equiv> lock_db [(keyprefix @ ''k'', sentinel)]"

theorem await_never_woken_witness:
  "\<exists>s. (wait_step mem_badger mem_set_entry match_prefixes [''k''])\<^sup>*\<^sup>* (await_start locked_k) s \<and>
     kScanned s = Some locked_k \<and> kWaiter s = WSubscribe [''k''] \<and> filter (locked (mem_content locked_k)) [''k''] = [''k'']"
proof -
  let ?s = "\<lparr>kDB = locked_k, kWaiter = WSubscribe [''k''], kPending = [], kSeen = [], kScanned = Some locked_k, kFreed = []\<rparr>"
  have r: "(wait_step mem_badger mem_set_entry match_prefixes [''k''])\<^sup>*\<^sup>* (await_start locked_k) ?s"
    using scan_locked [OF mem.badger_healthy_axioms mem_locked] by (rule r_into_rtranclp)
  have ap: "apart [''k'']" by (simp add: apart_def keyprefix_def)
  have sc: "kScanned ?s = Some locked_k" by simp
  have ex: "\<exists>k \<in> set [''k'']. locked (mem_content locked_k) k" by (simp add: locked_def mem_content_def)
  have "[''k''] = filter (locked (mem_content locked_k)) [''k'']"
    using await_never_woken [OF mem.badger_healthy_axioms match_prefixes_delivers ap r sc ex]
    by (simp only: waiting.simps waiter.case)
  then have f: "filter (locked (mem_content locked_k)) [''k''] = [''k'']" by (rule sym)
  show ?thesis by (rule exI [of _ ?s], intro conjI, rule r, rule sc, simp only: waiting.simps, rule f)
qed

text \<open>
  C30. Scanning and subscribing are not one step, and an unlock between them is lost. On a healthy database, for any locked
  key that can be unlocked, there is an order of the steps in which it is unlocked after the scan and before the
  subscription: the key is not locked any more and nothing is on its way to the waiter, which still waits for the key. When
  the key is a prefix of its own lock entry, so that the subscription covers the unlock, the other order of the same two
  steps ends the wait with nil.
\<close>

theorem await_loses_early_unlock:
  assumes "badger_healthy B content tview tbase" "delivers pub" "locked (content db) k" "UnlockKeys B [k] db = (None, db')"
  shows "(\<exists>s. (wait_step B setEntry pub [k])\<^sup>*\<^sup>* (await_start db) s \<and>
      kDB s = db' \<and> \<not> locked (content db') k \<and> kPending s = [] \<and> kWaiter s = WWait [k] [k]) \<and>
    (prefix k (keyprefix @ k) \<longrightarrow> (\<exists>s. (wait_step B setEntry pub [k])\<^sup>*\<^sup>* (await_start db) s \<and>
      kDB s = db' \<and> kPending s = [] \<and> kWaiter s = WEnd None))"
    (is "?early \<and> (_ \<longrightarrow> ?late)")
proof -
  have n: "\<not> locked (content db') k"
    using badger_laws.UnlockKeys_content [OF badger_healthy.axioms(1) [OF assms(1)] assms(4)]
    by (simp add: locked_def restrict_map_def)
  have "?early" by (intro exI conjI, rule early_unlock_run [OF assms(1,3,4)]) (simp_all add: n)
  moreover have "prefix k (keyprefix @ k) \<longrightarrow> ?late"
    by (intro impI exI conjI, erule late_unlock_run [OF assms(1,3,4,2)]) simp_all
  ultimately show ?thesis by (rule conjI)
qed

theorem await_loses_early_unlock_witness:
  "(\<exists>s. (wait_step mem_badger mem_set_entry match_prefixes [''a''])\<^sup>*\<^sup>* (await_start locked_a) s \<and>
     kDB s = lock_db [] \<and> kPending s = [] \<and> kWaiter s = WWait [''a''] [''a'']) \<and>
   (\<exists>s. (wait_step mem_badger mem_set_entry match_prefixes [''a''])\<^sup>*\<^sup>* (await_start locked_a) s \<and>
     kDB s = lock_db [] \<and> kWaiter s = WEnd None)"
  using await_loses_early_unlock [OF mem.badger_healthy_axioms match_prefixes_delivers mem_locked mem_unlock, of mem_set_entry "''a''"]
    prefix_a by blast

end
