(* ===== verification/Kafka.thy ===== *)
theory Kafka
  imports Conn
begin

text \<open>
  \<^verbatim>\<open>kafka/log.go\<close> and \<^verbatim>\<open>kafka/consumer.go\<close>: the transaction log as a Kafka topic.

  The Kafka client is outside the repository. Producing hands a record to it, so the log's state keeps the list of
  records handed over, \<open>tlProduced\<close>; the outcome of a delivery and the results of polling are arguments. The byte
  buffer under the log's connection is the connection's peer: no method of the log reads from it through the
  connection, so its content is what was written and not yet reset.
\<close>

record TxnLog =
  tlClientId :: string
  tlConnection :: Conn
  tlProduced :: "bytes list"

definition NewTxnLog :: "error option \<Rightarrow> rid \<Rightarrow> string \<Rightarrow> error + TxnLog" where
  "NewTxnLog newClient r clientID =
     (let buf = \<lparr>out = replicate 1024 CHR 0x00, room = None, werr = ErrShortWrite\<rparr>; conn = NewConnection r buf
      in case newClient of
           Some err \<Rightarrow> Inl err
         | None \<Rightarrow> Inr \<lparr>tlClientId = clientID, tlConnection = conn, tlProduced = []\<rparr>)"

text \<open>\<open>Append\<close> takes the lock of the connection itself and then calls its \<open>Write\<close>.\<close>

definition Append :: "message \<Rightarrow> heap \<times> TxnLog \<Rightarrow> (error option \<times> heap \<times> TxnLog) go" where
  "Append m = (\<lambda>(h, l).
     if cLocked (tlConnection l) then Blocked
     else go_bind (Conn_Write m (h, (tlConnection l)\<lparr>cLocked := True\<rparr>)) (\<lambda>((n, err), h1, c1).
       case err of
         Some e \<Rightarrow> Ret (Some e, h1, l\<lparr>tlConnection := c1\<lparr>cLocked := False\<rparr>\<rparr>)
       | None \<Rightarrow>
           Ret (None, h1, l\<lparr>tlConnection := c1\<lparr>cPeer := (cPeer c1)\<lparr>out := []\<rparr>, cLocked := False\<rparr>,
             tlProduced := tlProduced l @ [out (cPeer c1)]\<rparr>)))"

text \<open>The callback sends only an error on the channel; after a delivery without one the receive waits for ever.\<close>

definition Heartbeat :: "error option \<Rightarrow> heap \<times> TxnLog \<Rightarrow> (error option \<times> heap \<times> TxnLog) go" where
  "Heartbeat delivery = (\<lambda>(h, l).
     let (msg, h1) = NewOutgoingCommand [''CONTROL'', ''HEARTBEAT'', tlClientId l] h
     in go_bind (Append msg (h1, l)) (\<lambda>(err, h2, l').
       case err of
         Some e \<Rightarrow> Ret (Some e, h2, l')
       | None \<Rightarrow> (case delivery of Some e \<Rightarrow> Ret (Some e, h2, l') | None \<Rightarrow> Blocked)))"

subsection \<open>The consumer\<close>

text \<open>
  \<open>polls\<close> lists what \<open>PollFetches\<close> returns while the context is alive: errors, and record values in order;
  \<open>ctxErr\<close> is the context's error after that. \<open>errors.Join\<close> of one error wraps it.
\<close>

fun write_values :: "bytes list \<Rightarrow> writer \<Rightarrow> error option \<times> writer" where
  "write_values [] w = (None, w)"
| "write_values (v # vs) w =
     (case Write v w of
        ((n, Some err), w') \<Rightarrow> (Some err, w')
      | ((n, None), w') \<Rightarrow> write_values vs w')"

fun Run :: "(error list \<times> bytes list) list \<Rightarrow> error \<Rightarrow> writer \<Rightarrow> error option \<times> writer" where
  "Run [] ctxErr w = (Some ctxErr, w)"
| "Run ((errs, vals) # polls) ctxErr w =
     (case errs of
        e # _ \<Rightarrow> (Some (Errorf ''join'' [e]), w)
      | [] \<Rightarrow> (case write_values vals w of
          (Some err, w') \<Rightarrow> (Some err, w')
        | (None, w') \<Rightarrow> Run polls ctxErr w'))"

subsection \<open>Properties\<close>

lemma write_values_unbounded: "room w = None \<Longrightarrow> write_values vs w = (None, w\<lparr>out := out w @ concat vs\<rparr>)"
  by (induction vs arbitrary: w) (simp_all add: Write_unbounded)

text \<open>The error a consumer stops with: that of the first failing poll, else that of the context.\<close>

fun stop_error :: "(error list \<times> bytes list) list \<Rightarrow> error \<Rightarrow> error" where
  "stop_error [] ctxErr = ctxErr"
| "stop_error ((errs, vals) # polls) ctxErr = (case errs of e # _ \<Rightarrow> e | [] \<Rightarrow> stop_error polls ctxErr)"

text \<open>
  C36. Over a writer that does not fail, the consumer copies to it the values of all records polled before the first
  poll with an error, in order and nothing else, and then stops with that error or, if there is none, with the error
  of its context. It never returns nil.
\<close>

theorem consumer_copies_in_order:
  assumes "room w = None"
  shows "\<exists>err. Run polls ctxErr w =
      (Some err, w\<lparr>out := out w @ concat (concat (map snd (takeWhile (\<lambda>p. fst p = []) polls)))\<rparr>) \<and>
    errors_Is err (stop_error polls ctxErr)"
  using assms
proof (induction polls arbitrary: w)
  case Nil
  then show ?case by (cases ctxErr) simp_all
next
  case (Cons p polls)
  obtain errs vals where p: "p = (errs, vals)" by fastforce
  show ?case
  proof (cases errs)
    case Nil
    then show ?thesis
      using p Cons.IH [of "w\<lparr>out := out w @ concat vals\<rparr>"] Cons.prems by (simp add: write_values_unbounded)
  next
    case (Cons e es)
    have "errors_Is e e" by (cases e) simp_all
    then show ?thesis using p Cons by simp
  qed
qed

theorem consumer_copies_in_order_witness:
  "\<exists>err. Run [([], [''a'', ''b'']), ([EOF], [''c'']), ([], [''d''])] ErrCanceled buffer =
    (Some err, buffer\<lparr>out := ''ab''\<rparr>) \<and> errors_Is err EOF"
  using consumer_copies_in_order [of buffer "[([], [''a'', ''b'']), ([EOF], [''c'']), ([], [''d''])]" ErrCanceled] by simp

text \<open>
  C37. The log can never be written: \<open>Append\<close> locks the connection and calls \<open>Write\<close>, which locks it again, so
  appending any message to any log, and with it every heartbeat, blocks for ever and no record is produced.
\<close>

theorem append_blocks:
  "Append m (h, l) = Blocked \<and> Heartbeat delivery (h, l) = Blocked"
proof -
  have "Append m (h, l) = Blocked" for m h by (simp add: Append_def cw.held_blocks)
  then show ?thesis by (simp add: Heartbeat_def split: prod.split)
qed

end
