(* ===== verification/Badger_Open.thy ===== *)
theory Badger_Open
  imports Go_Prelude
begin

text \<open>
  \<^verbatim>\<open>raft/badger_store.go\<close>, opening and closing the database and collecting its garbage.

  The database library is a parameter: \<open>defaults\<close>, \<open>setSync\<close> and \<open>openDB\<close> for its options and \<open>Open\<close>, \<open>gc\<close> for
  \<open>RunValueLogGC\<close> and \<open>vlogSize\<close> for the second result of \<open>Size\<close>. Durations are in nanoseconds.
\<close>

record 'o Options =
  oPath :: string
  oBadgerOptions :: "'o option"
  oNoSync :: bool
  oValueLogGC :: bool
  oGCInterval :: int
  oMandatoryGCInterval :: int
  oGCThreshold :: int

text \<open>A ticker is its interval, and \<open>None\<close> if it is nil or stopped; \<open>bsGC\<close> is the threshold of the collecting goroutine, if it was started.\<close>

record 'db BadgerStore =
  bsConn :: 'db
  bsPath :: string
  bsVlogTicker :: "int option"
  bsMandatoryVlogTicker :: "int option"
  bsGC :: "int option"

definition minute :: int where "minute = 60000000000"

definition NewTicker :: "int \<Rightarrow> int go" where
  "NewTicker d = (if d \<le> 0 then Panic ''non-positive interval for NewTicker'' else Ret d)"

definition New_store :: "(string \<Rightarrow> 'o) \<Rightarrow> (bool \<Rightarrow> 'o \<Rightarrow> 'o) \<Rightarrow> ('o \<Rightarrow> error + 'db) \<Rightarrow> 'o Options \<Rightarrow> (error + 'db BadgerStore) go" where
  "New_store defaults setSync openDB options =
     (let opts = (case oBadgerOptions options of None \<Rightarrow> defaults (oPath options) | Some x \<Rightarrow> x)
      in case openDB (setSync (\<not> oNoSync options) opts) of
           Inl err \<Rightarrow> Ret (Inl err)
         | Inr handle \<Rightarrow>
             let store = \<lparr>bsConn = handle, bsPath = oPath options, bsVlogTicker = None, bsMandatoryVlogTicker = None, bsGC = None\<rparr> in
             if oValueLogGC options then
               let gcInterval = (if oGCInterval options \<noteq> 0 then oGCInterval options else 1 * minute);
                   mandatoryGCInterval = (if oMandatoryGCInterval options \<noteq> 0 then oMandatoryGCInterval options else 10 * minute);
                   threshold = (if oGCThreshold options \<noteq> 0 then oGCThreshold options else 2 ^ 30)
               in go_bind (NewTicker gcInterval) (\<lambda>t1.
                    go_bind (NewTicker mandatoryGCInterval) (\<lambda>t2.
                      Ret (Inr (store\<lparr>bsVlogTicker := Some t1, bsMandatoryVlogTicker := Some t2, bsGC := Some threshold\<rparr>))))
             else Ret (Inr store))"

definition NewBadgerStore :: "(string \<Rightarrow> 'o) \<Rightarrow> (bool \<Rightarrow> 'o \<Rightarrow> 'o) \<Rightarrow> ('o \<Rightarrow> error + 'db) \<Rightarrow> string \<Rightarrow> (error + 'db BadgerStore) go" where
  "NewBadgerStore defaults setSync openDB path =
     New_store defaults setSync openDB \<lparr>oPath = path, oBadgerOptions = None, oNoSync = False, oValueLogGC = False,
       oGCInterval = 0, oMandatoryGCInterval = 0, oGCThreshold = 0\<rparr>"

text \<open>Stopping a ticker means that it delivers no more ticks; the goroutine that waits for them stays.\<close>

definition Close :: "('db \<Rightarrow> error option \<times> 'db) \<Rightarrow> 'db BadgerStore \<Rightarrow> error option \<times> 'db BadgerStore" where
  "Close closeDB b =
     (let (err, db') = closeDB (bsConn b)
      in (err, b\<lparr>bsConn := db', bsVlogTicker := None, bsMandatoryVlogTicker := None\<rparr>))"

subsection \<open>Collecting garbage\<close>

text \<open>A collection is repeated until it fails; the result is the size of the value log after that.\<close>

partial_function (option) runGC :: "('db \<Rightarrow> error option \<times> 'db) \<Rightarrow> ('db \<Rightarrow> int) \<Rightarrow> 'db \<Rightarrow> (int \<times> 'db) option" where
  "runGC gc vlogSize db =
     (case gc db of
        (None, db') \<Rightarrow> runGC gc vlogSize db'
      | (Some err, db') \<Rightarrow> Some (vlogSize db', db'))"

declare runGC.simps [code]

datatype tick = VlogTick | MandatoryTick

text \<open>One round of the loop, for the tick the \<open>select\<close> takes; the state is the last size seen and the database.\<close>

definition vlog_round :: "('db \<Rightarrow> error option \<times> 'db) \<Rightarrow> ('db \<Rightarrow> int) \<Rightarrow> int \<Rightarrow> tick \<Rightarrow> int \<times> 'db \<Rightarrow> (int \<times> 'db) option" where
  "vlog_round gc vlogSize threshold t = (\<lambda>(lastVlogSize, db).
     case t of
       VlogTick \<Rightarrow>
         if vlogSize db < wrap64 (lastVlogSize + threshold) then Some (lastVlogSize, db)
         else runGC gc vlogSize db
     | MandatoryTick \<Rightarrow> runGC gc vlogSize db)"

fun vlog_loop :: "('db \<Rightarrow> error option \<times> 'db) \<Rightarrow> ('db \<Rightarrow> int) \<Rightarrow> int \<Rightarrow> tick list \<Rightarrow> int \<times> 'db \<Rightarrow> (int \<times> 'db) option" where
  "vlog_loop gc vlogSize threshold [] st = Some st"
| "vlog_loop gc vlogSize threshold (t # ts) st =
     (case vlog_round gc vlogSize threshold t st of None \<Rightarrow> None | Some st' \<Rightarrow> vlog_loop gc vlogSize threshold ts st')"

definition runVlogGC :: "('db \<Rightarrow> error option \<times> 'db) \<Rightarrow> ('db \<Rightarrow> int) \<Rightarrow> int \<Rightarrow> tick list \<Rightarrow> 'db \<Rightarrow> (int \<times> 'db) option" where
  "runVlogGC gc vlogSize threshold ts db = vlog_loop gc vlogSize threshold ts (vlogSize db, db)"

subsection \<open>Properties\<close>

text \<open>The database after \<open>n\<close> collections.\<close>

definition collected :: "('db \<Rightarrow> error option \<times> 'db) \<Rightarrow> nat \<Rightarrow> 'db \<Rightarrow> 'db" where
  "collected gc n = (\<lambda>d. snd (gc d)) ^^ n"

lemma collected_0 [simp]: "collected gc 0 d = d"
  by (simp add: collected_def)

lemma collected_Suc: "collected gc (Suc n) d = collected gc n (snd (gc d))"
  unfolding collected_def by (simp only: funpow_Suc_right o_apply)

lemma runGC_returns:
  "fst (gc (collected gc n db)) \<noteq> None \<Longrightarrow> \<forall>m < n. fst (gc (collected gc m db)) = None \<Longrightarrow>
   runGC gc vlogSize db = Some (vlogSize (collected gc (Suc n) db), collected gc (Suc n) db)"
proof (induction n arbitrary: db)
  case 0
  obtain e d where "gc db = (Some e, d)" using 0 by (cases "gc db") auto
  then show ?case by (simp add: runGC.simps [of gc vlogSize db] collected_Suc)
next
  case (Suc n)
  obtain d where d: "gc db = (None, d)" using Suc.prems(2) by (cases "gc db") force
  have "runGC gc vlogSize d = Some (vlogSize (collected gc (Suc n) d), collected gc (Suc n) d)"
  proof (rule Suc.IH)
    show "fst (gc (collected gc n d)) \<noteq> None" using Suc.prems(1) d by (simp add: collected_Suc)
    show "\<forall>m < n. fst (gc (collected gc m d)) = None"
      using Suc.prems(2) d collected_Suc [of gc _ db] by (metis Suc_less_eq snd_conv)
  qed
  then show ?case using d by (simp add: runGC.simps [of gc vlogSize db] collected_Suc [of gc _ db])
qed

lemma runGC_failed:
  assumes "runGC gc vlogSize db = Some r"
  shows "\<exists>n. fst (gc (collected gc n db)) \<noteq> None"
proof (rule runGC.raw_induct [of "\<lambda>gc' v' db' r'. \<exists>n. fst (gc' (collected gc' n db')) \<noteq> None", OF _ assms], goal_cases)
  case (1 f gc' v' db' r')
  show ?case
  proof (cases "fst (gc' db')")
    case None
    then obtain d where d: "gc' db' = (None, d)" by (cases "gc' db'") auto
    with 1 obtain n where "fst (gc' (collected gc' n d)) \<noteq> None" by fastforce
    then show ?thesis using d by (intro exI [of _ "Suc n"]) (simp add: collected_Suc)
  qed (auto intro: exI [of _ 0])
qed

lemma runGC_iff: "runGC gc vlogSize db \<noteq> None \<longleftrightarrow> (\<exists>n. fst (gc (collected gc n db)) \<noteq> None)"
proof
  assume "\<exists>n. fst (gc (collected gc n db)) \<noteq> None"
  then have "fst (gc (collected gc (LEAST n. fst (gc (collected gc n db)) \<noteq> None) db)) \<noteq> None" by (rule LeastI_ex)
  then have "runGC gc vlogSize db \<noteq> None"
    using runGC_returns [of gc "LEAST n. fst (gc (collected gc n db)) \<noteq> None" db vlogSize] not_less_Least by blast
  then show "runGC gc vlogSize db \<noteq> None" .
qed (use runGC_failed in fastforce)

text \<open>
  C39. A garbage collection run ends exactly if some repeated collection fails. It stops after the first failing one, and
  the size it remembers for the next comparison is that of the value log at that moment.
\<close>

theorem gc_run_ends:
  "(runGC gc vlogSize db \<noteq> None \<longleftrightarrow> (\<exists>n. fst (gc (collected gc n db)) \<noteq> None)) \<and>
   (fst (gc (collected gc n db)) \<noteq> None \<and> (\<forall>m < n. fst (gc (collected gc m db)) = None) \<longrightarrow>
      runGC gc vlogSize db = Some (vlogSize (collected gc (Suc n) db), collected gc (Suc n) db))"
  by (intro conjI impI, rule runGC_iff) (elim conjE, rule runGC_returns)

theorem gc_run_ends_witness:
  "runGC (\<lambda>d. if d < 10 then (Some (External 0), d) else (None, d - 4)) id (15 :: int) = Some (7, 7)"
  using gc_run_ends [of "\<lambda>d. if d < 10 then (Some (External 0), d) else (None, d - 4)" id 15 2, THEN conjunct2]
  by (simp add: collected_Suc numeral_2_eq_2 less_Suc_eq)

end
