(* ===== verification/Fsm.thy ===== *)
theory Fsm
  imports Conn Badger_Open
begin

text \<open>
  \<^verbatim>\<open>raft/appender.go\<close>: applying committed log entries to the redis server through a pool of connections.

  The pool is a library: \<open>Acquire\<close> gives an error or a connection, the argument \<open>acquired\<close>; releasing and destroying
  the pool's item are recorded in the result. Both types of the file that raft calls have an \<open>Apply\<close>.
\<close>

record MsgOrError =
  moMsg :: "message option"
  moErr :: "error option"

datatype pool_item = NotAcquired | Released Conn | DestroyedThenReleased Conn

definition Appender_Apply :: "error + Conn \<Rightarrow> bytes \<Rightarrow> heap \<Rightarrow> (MsgOrError \<times> heap \<times> pool_item) go" where
  "Appender_Apply acquired data h =
     (case acquired of
        Inl err \<Rightarrow> Ret (\<lparr>moMsg = None, moErr = Some err\<rparr>, h, NotAcquired)
      | Inr value \<Rightarrow>
          go_bind (RawRoundtrip data (h, value)) (\<lambda>((msg, err), h', c').
            Ret (\<lparr>moMsg = Some msg, moErr = err\<rparr>, h', Released c')))"

definition RedisFSM_Apply :: "error + Conn \<Rightarrow> bytes \<Rightarrow> heap \<Rightarrow> (MsgOrError \<times> heap \<times> pool_item) go" where
  "RedisFSM_Apply acquired data h =
     (case acquired of
        Inl err \<Rightarrow> Ret (\<lparr>moMsg = None, moErr = Some err\<rparr>, h, NotAcquired)
      | Inr conn \<Rightarrow>
          go_bind (RawRoundtrip data (h, conn)) (\<lambda>((resp, err), h', c').
            if err \<noteq> None then Ret (\<lparr>moMsg = None, moErr = err\<rparr>, h', DestroyedThenReleased c')
            else Ret (\<lparr>moMsg = Some resp, moErr = err\<rparr>, h', Released c')))"

definition Restore :: "heap \<Rightarrow> (error option \<times> heap) go" where
  "Restore h = Panic ''implement me''"

subsection \<open>Opening the cluster node\<close>

text \<open>
  \<open>Open\<close> calls the raft and network libraries in turn. Their outcomes are the parameters of \<open>raft_lib\<close>; the transport, the
  snapshot store and the node are values of theirs. The state machine is created with all fields at their zero values, a
  pool that was never initialised and a nil context among them. What has been opened when a later step fails stays open: the last result
  lists it.
\<close>

record RedisFSM =
  fsmPool :: "Conn list option"
  fsmCtxSet :: bool
  fsmConfSet :: bool

record 'raft Appender =
  aPath :: string
  aRaftBind :: string
  aRaftDir :: string
  aRetainSnapshotCount :: int
  aRaft :: "'raft option"

record ('addr, 'tr, 'sn, 'db, 'raft) raft_lib =
  ResolveTCPAddr :: "string \<Rightarrow> error + 'addr"
  NewTCPTransport :: "string \<Rightarrow> 'addr \<Rightarrow> error + 'tr"
  NewFileSnapshotStore :: "string \<Rightarrow> int \<Rightarrow> error + 'sn"
  NewRaft :: "string \<Rightarrow> RedisFSM \<Rightarrow> 'db BadgerStore \<Rightarrow> 'sn \<Rightarrow> 'tr \<Rightarrow> error + 'raft"
  LocalAddr :: "'tr \<Rightarrow> string"
  BootstrapCluster :: "'raft \<Rightarrow> (string \<times> string) list \<Rightarrow> 'raft"

datatype ('tr, 'sn, 'db) opened = OTransport 'tr | OSnapshots 'sn | OStore "'db BadgerStore"

definition Open :: "('addr, 'tr, 'sn, 'db, 'raft) raft_lib \<Rightarrow> (string \<Rightarrow> (error + 'db BadgerStore) go) \<Rightarrow> bool \<Rightarrow> string \<Rightarrow> 'raft Appender \<Rightarrow>
    (error option \<times> 'raft Appender \<times> ('tr, 'sn, 'db) opened list) go" where
  "Open lib newStore enableSingle localID s =
     (case ResolveTCPAddr lib (aRaftBind s) of
        Inl err \<Rightarrow> Ret (Some err, s, [])
      | Inr addr \<Rightarrow>
     (case NewTCPTransport lib (aRaftBind s) addr of
        Inl err \<Rightarrow> Ret (Some err, s, [])
      | Inr transport \<Rightarrow>
     (case NewFileSnapshotStore lib (aRaftDir s) (aRetainSnapshotCount s) of
        Inl err \<Rightarrow> Ret (Some (Errorf ''file snapshot store: %s'' []), s, [OTransport transport])
      | Inr snapshots \<Rightarrow>
     go_bind (newStore (aPath s)) (\<lambda>r. case r of
        Inl err \<Rightarrow> Ret (Some err, s, [OTransport transport, OSnapshots snapshots])
      | Inr store \<Rightarrow>
          let opened = [OTransport transport, OSnapshots snapshots, OStore store];
              fsm = \<lparr>fsmPool = None, fsmCtxSet = False, fsmConfSet = False\<rparr>
          in case NewRaft lib localID fsm store snapshots transport of
               Inl err \<Rightarrow> Ret (Some (Errorf ''new raft: %s'' []), s, opened)
             | Inr ra \<Rightarrow>
                 let ra' = (if enableSingle then BootstrapCluster lib ra [(localID, LocalAddr lib transport)] else ra)
                 in Ret (None, s\<lparr>aRaft := Some ra'\<rparr>, opened)))))"

text \<open>A snapshot is a pair of functions it passes its calls on to.\<close>

record ('sink, 'w) fsmSnapshot =
  persist :: "'sink \<Rightarrow> 'w \<Rightarrow> error option \<times> 'w"
  release :: "'w \<Rightarrow> 'w"

definition Persist :: "('sink, 'w) fsmSnapshot \<Rightarrow> 'sink \<Rightarrow> 'w \<Rightarrow> error option \<times> 'w" where
  "Persist f sink w = persist f sink w"

definition Release :: "('sink, 'w) fsmSnapshot \<Rightarrow> 'w \<Rightarrow> 'w" where
  "Release f w = release f w"

subsection \<open>Properties\<close>

text \<open>With the store of \<open>NewBadgerStore\<close>, \<open>Open\<close> returns; the node is set exactly if there is no error.\<close>

lemma NewBadgerStore_returns: "\<exists>r. NewBadgerStore defaults setSync openDB path = Ret r"
  by (auto simp: NewBadgerStore_def New_store_def Let_def split: sum.split)

lemma Open_returns:
  "case Open lib (NewBadgerStore defaults setSync openDB) single localID s of
     Ret (err, s', os) \<Rightarrow> if err = None then length os = 3 \<and> aRaft s' \<noteq> None else s' = s
   | _ \<Rightarrow> False"
proof -
  obtain r where "NewBadgerStore defaults setSync openDB (aPath s) = Ret r" using NewBadgerStore_returns by blast
  then show ?thesis by (auto simp: Open_def Let_def split: sum.split)
qed

lemma RawRoundtrip_error: "RawRoundtrip data (h, c) = Ret ((m, err), h', c') \<Longrightarrow> \<exists>e. err = Some e"
  using raw_round_trip_deadlock [OF rr.free_before, of data h c _ data h] by auto

text \<open>
  C38. No committed entry is ever answered: an \<open>Apply\<close> of either type that returns has an error, which is that of the
  pool, of the write or of the flush, and an \<open>Apply\<close> whose entry reached a healthy server never returns. The pool item
  of the state machine is then destroyed and released as well.
\<close>

theorem apply_never_answers:
  "(RedisFSM_Apply acquired data h = Ret (r, h', it) \<longrightarrow> moErr r \<noteq> None \<and> moMsg r = None \<and> (\<forall>c. it \<noteq> Released c)) \<and>
   (Appender_Apply acquired data h = Ret (r, h', it) \<longrightarrow> moErr r \<noteq> None) \<and>
   (clean_conn c \<longrightarrow> RedisFSM_Apply (Inr c) data h = Blocked \<and> Appender_Apply (Inr c) data h = Blocked)"
proof (intro conjI impI)
  assume "RedisFSM_Apply acquired data h = Ret (r, h', it)"
  then show "moErr r \<noteq> None" "moMsg r = None" "\<forall>c. it \<noteq> Released c"
    by (auto simp: RedisFSM_Apply_def go_bind_Ret_iff split: sum.splits if_splits dest: RawRoundtrip_error)
next
  assume "Appender_Apply acquired data h = Ret (r, h', it)"
  then show "moErr r \<noteq> None"
    by (auto simp: Appender_Apply_def go_bind_Ret_iff split: sum.splits dest: RawRoundtrip_error)
next
  assume "clean_conn c"
  then have "RawRoundtrip data (h, c) = Blocked"
    by (simp add: clean_conn_def RawRoundtrip_def with_lock_def rw_write_def rw_flush_def Write_unbounded rd.held_blocks)
  then show "RedisFSM_Apply (Inr c) data h = Blocked" "Appender_Apply (Inr c) data h = Blocked"
    by (simp_all add: RedisFSM_Apply_def Appender_Apply_def)
qed

theorem apply_never_answers_witness:
  "RedisFSM_Apply (Inr a_conn) ''+PING'' empty_heap = Blocked"
  using apply_never_answers [of undefined "''+PING''" empty_heap undefined undefined undefined a_conn]
    clean_NewConnection [of buffer 0] by simp

end
