(* ===== verification/Raft_Util.thy ===== *)
theory Raft_Util
  imports Go_Prelude
begin

text \<open>
  \<^verbatim>\<open>raft/util.go\<close>: 64-bit integers as eight bytes, most significant first, so that the byte order of keys
  is the numeric order of indices. The message-pack coder is a library of its own and appears as the parameter
  \<open>msgpack\<close>.
\<close>

type_synonym uint64 = "64 word"

subsection \<open>Big-endian numbers\<close>

fun be_bytes :: "nat \<Rightarrow> nat \<Rightarrow> bytes" where
  "be_bytes 0 x = []"
| "be_bytes (Suc n) x = char_of (x div 256 ^ n mod 256) # be_bytes n x"

fun be_val :: "bytes \<Rightarrow> nat" where
  "be_val [] = 0"
| "be_val (c # cs) = of_char c * 256 ^ length cs + be_val cs"

definition uint64ToBytes :: "uint64 \<Rightarrow> bytes" where
  "uint64ToBytes u = be_bytes 8 (unat u)"

text \<open>\<open>binary.BigEndian.Uint64\<close> takes the first eight bytes and panics when there are fewer.\<close>

definition bytesToUint64 :: "bytes \<Rightarrow> uint64 go" where
  "bytesToUint64 b = (if length b < 8 then Panic ''index out of range'' else Ret (of_nat (be_val (take 8 b))))"

lemma length_be_bytes [simp]: "length (be_bytes n x) = n"
  by (induction n) auto

lemma be_val_bound: "be_val cs < 256 ^ length cs"
proof (induction cs)
  case (Cons c cs)
  have "of_char c * 256 ^ length cs + be_val cs < of_char c * 256 ^ length cs + 256 ^ length cs"
    using Cons by simp
  also have "\<dots> = (of_char c + 1) * 256 ^ length cs" by (simp add: algebra_simps)
  also have "\<dots> \<le> 256 * 256 ^ length cs"
  proof (rule mult_right_mono)
    show "of_char c + 1 \<le> (256 :: nat)" using nat_of_char_less_256 [of c] by linarith
  qed simp
  finally show ?case by simp
qed simp

lemma be_bytes_mod: "be_bytes n (x mod 256 ^ n) = be_bytes n x"
proof -
  have "be_bytes n (x mod 256 ^ m) = be_bytes n x" if "n \<le> m" for m
    using that
  proof (induction n)
    case (Suc n)
    have m: "(256::nat) ^ m = 256 ^ n * (256 * 256 ^ (m - Suc n))"
      using Suc.prems by (simp flip: power_add power_Suc)
    have "x mod 256 ^ m div 256 ^ n mod 256 = x div 256 ^ n mod (256 * 256 ^ (m - Suc n)) mod 256"
      unfolding m mod_mult2_eq [of x] by simp
    then have "x mod 256 ^ m div 256 ^ n mod 256 = x div 256 ^ n mod 256" by (simp add: mod_mod_cancel)
    with Suc show ?case by simp
  qed simp
  then show ?thesis by blast
qed

lemma be_val_bytes: "be_val (be_bytes n x) = x mod 256 ^ n"
proof (induction n)
  case (Suc n)
  have "x mod 256 ^ Suc n = 256 ^ n * (x div 256 ^ n mod 256) + x mod 256 ^ n"
    using mod_mult2_eq [of x "256 ^ n" 256] by (simp add: mult.commute)
  with Suc show ?case by (simp add: mult.commute)
qed simp

lemma be_bytes_val: "be_bytes (length cs) (be_val cs) = cs"
proof (induction cs)
  case (Cons c cs)
  have b: "be_val cs < 256 ^ length cs" by (rule be_val_bound)
  have "be_bytes (length cs) (of_char c * 256 ^ length cs + be_val cs) = be_bytes (length cs) (be_val cs)"
    using be_bytes_mod [of "length cs" "of_char c * 256 ^ length cs + be_val cs"]
      be_bytes_mod [of "length cs" "be_val cs"] by simp
  with Cons b show ?case by simp
qed simp

lemma be_val_less_iff: "length xs = length ys \<Longrightarrow> be_val xs < be_val ys \<longleftrightarrow> xs < ys"
proof (induction xs ys rule: list_induct2)
  case (Cons x xs y ys)
  note b = be_val_bound [of xs] be_val_bound [of ys]
  have lt: "of_char x * 256 ^ length ys + be_val xs < of_char y * 256 ^ length ys + be_val ys"
    if "(of_char x :: nat) < of_char y"
  proof -
    have "of_char x * 256 ^ length ys + be_val xs < (of_char x + 1) * 256 ^ length ys"
      using b Cons by (simp add: algebra_simps)
    also have "\<dots> \<le> of_char y * 256 ^ length ys" using that by (intro mult_right_mono) simp_all
    finally show ?thesis by simp
  qed
  have gt: "of_char y * 256 ^ length ys + be_val ys < of_char x * 256 ^ length ys + be_val xs"
    if "(of_char y :: nat) < of_char x"
  proof -
    have "of_char y * 256 ^ length ys + be_val ys < (of_char y + 1) * 256 ^ length ys"
      using b by (simp add: algebra_simps)
    also have "\<dots> \<le> of_char x * 256 ^ length ys" using that by (intro mult_right_mono) simp_all
    finally show ?thesis by simp
  qed
  consider "(of_char x :: nat) < of_char y" | "(of_char y :: nat) < of_char x" | "x = y" by (metis linorder_cases of_char_eq_iff)
  then show ?case
    by cases (use lt gt Cons in \<open>auto simp: less_char_def\<close>)
qed simp

lemma length_uint64ToBytes [simp]: "length (uint64ToBytes u) = 8"
  by (simp add: uint64ToBytes_def)

lemma unat_uint64: "unat (u :: uint64) < 256 ^ 8"
  using unsigned_less [of u] by simp

lemma be_val_uint64 [simp]: "be_val (uint64ToBytes u) = unat u"
  using unat_uint64 [of u] by (simp add: uint64ToBytes_def be_val_bytes)

lemma bytesToUint64_uint64ToBytes [simp]: "bytesToUint64 (uint64ToBytes u @ cs) = Ret u"
  by (simp add: bytesToUint64_def)

lemma uint64ToBytes_inject [simp]: "uint64ToBytes u = uint64ToBytes v \<longleftrightarrow> u = v"
  by (metis be_val_uint64 unsigned_word_eqI)

lemma uint64ToBytes_bytesToUint64:
  assumes "length cs = 8" "bytesToUint64 cs = Ret u"
  shows "uint64ToBytes u = cs"
proof -
  have "u = of_nat (be_val cs)" using assms by (simp add: bytesToUint64_def)
  moreover have "be_val cs < 2 ^ 64" using be_val_bound [of cs] assms(1) by simp
  ultimately have "unat u = be_val cs" by (simp add: unsigned_of_nat take_bit_nat_eq_self)
  then show ?thesis using be_bytes_val [of cs] assms(1) by (simp add: uint64ToBytes_def)
qed

lemma uint64ToBytes_less [simp]: "uint64ToBytes u < uint64ToBytes v \<longleftrightarrow> u < v"
  using be_val_less_iff [of "uint64ToBytes u" "uint64ToBytes v"] by (simp add: word_less_nat_alt)

lemma uint64ToBytes_le [simp]: "uint64ToBytes u \<le> uint64ToBytes v \<longleftrightarrow> u \<le> v"
  by (simp flip: not_less)

text \<open>
  C22. The key encoding of indices is a bijection between 64-bit integers and byte strings of length eight that
  keeps the order: decoding an encoded index gives it back, whatever bytes follow, encoding a decoded string gives the string
  back, and the byte order of two encodings is the numeric order of the indices. Shorter strings panic.
\<close>

theorem uint64_bytes_order_iso:
  "bytesToUint64 (uint64ToBytes u @ cs) = Ret u \<and> length (uint64ToBytes u) = 8 \<and>
   (\<forall>bs. length bs = 8 \<longrightarrow> (\<exists>v. bytesToUint64 bs = Ret v \<and> uint64ToBytes v = bs)) \<and>
   (uint64ToBytes u < uint64ToBytes v \<longleftrightarrow> u < v) \<and>
   (\<forall>bs. length bs < 8 \<longrightarrow> (\<exists>s. bytesToUint64 bs = Panic s))"
  using uint64ToBytes_bytesToUint64 by (auto simp: bytesToUint64_def)

theorem uint64_bytes_order_iso_witness:
  "(\<exists>v. bytesToUint64 (replicate 6 CHR 0x00 @ [CHR 0x01, CHR 0x02]) = Ret v \<and>
     uint64ToBytes v = replicate 6 CHR 0x00 @ [CHR 0x01, CHR 0x02]) \<and>
   (\<exists>s. bytesToUint64 ''abc'' = Panic s)"
  using uint64_bytes_order_iso [of 0 "[]" 0] by simp

subsection \<open>The message-pack coder\<close>

text \<open>
  \<open>encodeMsgPack\<close> and \<open>decodeMsgPack\<close> run the encoder and the decoder of the codec library on a buffer. The library, the
  type of log entries and their \<open>Index\<close> are parameters. Both callers drop the buffer of a failed encoding.
\<close>

record 'log msgpack =
  encoderEncode :: "'log \<Rightarrow> bytes \<times> error option"
  decoderDecode :: "bytes \<Rightarrow> 'log \<Rightarrow> error option \<times> 'log"
  logIndex :: "'log \<Rightarrow> uint64"

definition encodeMsgPack :: "'log msgpack \<Rightarrow> 'log \<Rightarrow> error + bytes" where
  "encodeMsgPack mp log = (case encoderEncode mp log of (buf, Some err) \<Rightarrow> Inl err | (buf, None) \<Rightarrow> Inr buf)"

definition decodeMsgPack :: "'log msgpack \<Rightarrow> bytes \<Rightarrow> 'log \<Rightarrow> error option \<times> 'log" where
  "decodeMsgPack mp buf log = decoderDecode mp buf log"

end
