(* ===== verification/Badger_Store.thy ===== *)
theory Badger_Store
  imports Badger Raft_Util
begin

text \<open>
  \<^verbatim>\<open>raft/badger_store.go\<close>: the raft log and the stable store in one database, told apart by a prefix byte. The
  definitions take the database \<open>B\<close> and the message-pack coder \<open>mp\<close> as parameters and thread the database state.
\<close>

definition prefixLogs :: bytes where "prefixLogs = [CHR 0x00]"
definition prefixConf :: bytes where "prefixConf = [CHR 0x01]"

definition logkey :: "uint64 \<Rightarrow> bytes" where
  "logkey i = prefixLogs @ uint64ToBytes i"

definition confkey :: "bytes \<Rightarrow> bytes" where
  "confkey k = prefixConf @ k"

subsection \<open>Operations\<close>

definition ValidForPrefix :: "bytes \<Rightarrow> bytes list \<Rightarrow> bool" where
  "ValidForPrefix p ks = (case ks of [] \<Rightarrow> False | k # _ \<Rightarrow> take (length p) k = p)"

definition index_result :: "(error + uint64 go) \<Rightarrow> (error + uint64) go" where
  "index_result r = (case r of Inl e \<Rightarrow> Ret (Inl e) | Inr g \<Rightarrow> go_bind g (\<lambda>i. Ret (Inr i)))"

definition FirstIndex :: "('db, 't) badger \<Rightarrow> 'db \<Rightarrow> (error + uint64) go" where
  "FirstIndex B db =
     index_result (View B db (\<lambda>t.
       let it = txnSeek B t False prefixLogs in
       Inr (if ValidForPrefix prefixLogs it then bytesToUint64 (drop 1 (hd it)) else Ret 0)))"

definition LastIndex :: "('db, 't) badger \<Rightarrow> 'db \<Rightarrow> (error + uint64) go" where
  "LastIndex B db =
     index_result (View B db (\<lambda>t.
       let it = txnSeek B t True (prefixLogs @ replicate 7 CHR 0xFF) in
       Inr (if ValidForPrefix prefixLogs it then bytesToUint64 (drop 1 (hd it)) else Ret 0)))"

definition GetLog :: "('db, 't) badger \<Rightarrow> 'log msgpack \<Rightarrow> 'db \<Rightarrow> uint64 \<Rightarrow> 'log \<Rightarrow> error option \<times> 'log" where
  "GetLog B mp db index log =
     (case View B db (\<lambda>t. Inr
        (case txnGet B t (logkey index) of
           Inl err \<Rightarrow> (Some (if err = BadgerKeyNotFound then ErrLogNotFound else err), log)
         | Inr (Inl err) \<Rightarrow> (Some err, log)
         | Inr (Inr val) \<Rightarrow> decodeMsgPack mp val log)) of
        Inl err \<Rightarrow> (Some err, log)
      | Inr r \<Rightarrow> r)"

definition StoreLog :: "('db, 't) badger \<Rightarrow> 'log msgpack \<Rightarrow> 'log \<Rightarrow> 'db \<Rightarrow> error option \<times> 'db" where
  "StoreLog B mp log db =
     (case encodeMsgPack mp log of
        Inl err \<Rightarrow> (Some err, db)
      | Inr val \<Rightarrow> Update B db (\<lambda>t. txnSet B t (logkey (logIndex mp log)) val))"

text \<open>
  One transaction of \<open>StoreLogs\<close> or \<open>DeleteRange\<close>: it took everything (\<open>Filled\<close>), or became too big and something
  is left to do (\<open>Full\<close>), or failed and is dropped without a commit.
\<close>

datatype ('t, 'a) batch = Filled 't | Full 't 'a | Failed error

fun store_batch :: "('db, 't) badger \<Rightarrow> 'log msgpack \<Rightarrow> 'log list \<Rightarrow> 't \<Rightarrow> ('t, 'log list) batch" where
  "store_batch B mp [] t = Filled t"
| "store_batch B mp (log # logs) t =
     (case encodeMsgPack mp log of
        Inl err \<Rightarrow> Failed err
      | Inr val \<Rightarrow>
          (case txnSet B t (logkey (logIndex mp log)) val of
             (None, t') \<Rightarrow> store_batch B mp logs t'
           | (Some err, t') \<Rightarrow> if err = ErrTxnTooBig then Full t' (log # logs) else Failed err))"

partial_function (option) StoreLogs ::
  "('db, 't) badger \<Rightarrow> 'log msgpack \<Rightarrow> 'log list \<Rightarrow> 'db \<Rightarrow> (error option \<times> 'db) option" where
  "StoreLogs B mp logs db =
     (case store_batch B mp logs (NewTransaction B db) of
        Failed err \<Rightarrow> Some (Some err, db)
      | Filled t \<Rightarrow> Some (txnCommit B db t)
      | Full t logs' \<Rightarrow>
          (case txnCommit B db t of
             (Some err, db') \<Rightarrow> Some (Some err, db')
           | (None, db') \<Rightarrow> StoreLogs B mp logs' db'))"

text \<open>The index in a nine-byte key buffer.\<close>

definition key_index :: "bytes \<Rightarrow> uint64" where
  "key_index key = (case bytesToUint64 (drop 1 key) of Ret i \<Rightarrow> i | _ \<Rightarrow> 0)"

fun delete_batch :: "('db, 't) badger \<Rightarrow> uint64 \<Rightarrow> bytes list \<Rightarrow> 't \<Rightarrow> ('t, uint64) batch" where
  "delete_batch B hi [] t = Filled t"
| "delete_batch B hi (k # ks) t =
     (let key = KeyCopy9 k in
      if key_index key > hi then Filled t
      else case txnDelete B t key of
             (None, t') \<Rightarrow> delete_batch B hi ks t'
           | (Some err, t') \<Rightarrow> if err = ErrTxnTooBig then Full t' (key_index key) else Failed err)"

partial_function (option) DeleteRange ::
  "('db, 't) badger \<Rightarrow> uint64 \<Rightarrow> uint64 \<Rightarrow> 'db \<Rightarrow> (error option \<times> 'db) option" where
  "DeleteRange B lo hi db =
     (let t = NewTransaction B db in
      case delete_batch B hi (txnSeek B t False (logkey lo)) t of
        Failed err \<Rightarrow> Some (Some err, db)
      | Filled t' \<Rightarrow> Some (txnCommit B db t')
      | Full t' i \<Rightarrow>
          (case txnCommit B db t' of
             (Some err, db') \<Rightarrow> Some (Some err, db')
           | (None, db') \<Rightarrow> DeleteRange B i hi db'))"

text \<open>The stable store.\<close>

definition Store_Set :: "('db, 't) badger \<Rightarrow> bytes \<Rightarrow> bytes \<Rightarrow> 'db \<Rightarrow> error option \<times> 'db" where
  "Store_Set B key val db = Update B db (\<lambda>t. txnSet B t (confkey key) val)"

definition Store_Get :: "('db, 't) badger \<Rightarrow> bytes \<Rightarrow> 'db \<Rightarrow> error + bytes" where
  "Store_Get B key db =
     View B db (\<lambda>t.
       case txnGet B t (confkey key) of
         Inl err \<Rightarrow> Inl (if err = BadgerKeyNotFound then ErrKeyNotFound else err)
       | Inr r \<Rightarrow> r)"

definition SetUint64 :: "('db, 't) badger \<Rightarrow> bytes \<Rightarrow> uint64 \<Rightarrow> 'db \<Rightarrow> error option \<times> 'db" where
  "SetUint64 B key val db = Store_Set B key (uint64ToBytes val) db"

definition GetUint64 :: "('db, 't) badger \<Rightarrow> bytes \<Rightarrow> 'db \<Rightarrow> (error + uint64) go" where
  "GetUint64 B key db =
     (case Store_Get B key db of
        Inl err \<Rightarrow> Ret (Inl err)
      | Inr val \<Rightarrow> go_bind (bytesToUint64 val) (\<lambda>u. Ret (Inr u)))"

subsection \<open>Keys\<close>

lemma logkey_eq [simp]: "logkey i = logkey j \<longleftrightarrow> i = j"
  by (simp add: logkey_def)

lemma confkey_eq [simp]: "confkey a = confkey b \<longleftrightarrow> a = b"
  by (simp add: confkey_def)

lemma logkey_confkey [simp]: "logkey i \<noteq> confkey c" "confkey c \<noteq> logkey i"
  by (simp_all add: logkey_def confkey_def prefixLogs_def prefixConf_def)

lemma length_logkey [simp]: "length (logkey i) = 9"
  by (simp add: logkey_def prefixLogs_def)

lemma logkey_le [simp]: "logkey i \<le> logkey j \<longleftrightarrow> i \<le> j"
  by (simp add: logkey_def prefixLogs_def)

lemma logkey_less [simp]: "logkey i < logkey j \<longleftrightarrow> i < j"
  by (simp add: logkey_def prefixLogs_def)

lemma logkey_less_confkey [simp]: "logkey i < confkey c"
  by (simp add: logkey_def confkey_def prefixLogs_def prefixConf_def less_char_def)

lemma KeyCopy9_logkey [simp]: "KeyCopy9 (logkey i) = logkey i"
  by (simp add: KeyCopy9_def)

lemma key_index_logkey [simp]: "key_index (logkey i) = i"
  using bytesToUint64_uint64ToBytes [of i "[]"] by (simp add: key_index_def logkey_def prefixLogs_def)

lemma bytesToUint64_logkey [simp]: "bytesToUint64 (drop (Suc 0) (logkey i)) = Ret i"
  using bytesToUint64_uint64ToBytes [of i "[]"] by (simp add: logkey_def prefixLogs_def)

lemma replicate_zero_logkey: "replicate 9 CHR 0x00 = logkey 0"
proof -
  have "be_bytes n 0 = replicate n CHR 0x00" for n by (induction n) (simp_all add: char_of_def)
  moreover have "replicate 9 CHR 0x00 = CHR 0x00 # replicate 8 CHR 0x00" by (simp add: numeral_eq_Suc)
  ultimately show ?thesis by (simp add: logkey_def prefixLogs_def uint64ToBytes_def)
qed

text \<open>A database that only this store has written to holds log keys and configuration keys.\<close>

definition store_keys :: "(bytes \<Rightarrow> bytes option) \<Rightarrow> bool" where
  "store_keys m \<longleftrightarrow> (\<forall>k \<in> dom m. (\<exists>i. k = logkey i) \<or> (\<exists>c. k = confkey c))"

definition log_indices :: "(bytes \<Rightarrow> bytes option) \<Rightarrow> uint64 set" where
  "log_indices m = {i. logkey i \<in> dom m}"

lemma prefixLogs_le_logkey [simp]: "prefixLogs \<le> logkey i" and prefixLogs_le_confkey [simp]: "prefixLogs \<le> confkey c"
  by (simp_all add: logkey_def confkey_def prefixLogs_def prefixConf_def less_char_def)

lemma ValidForPrefix_simps [simp]:
  "\<not> ValidForPrefix p []" "ValidForPrefix prefixLogs (logkey i # ks)" "\<not> ValidForPrefix prefixLogs (confkey c # ks)"
  by (simp_all add: ValidForPrefix_def logkey_def confkey_def prefixLogs_def prefixConf_def)

text \<open>The place \<open>LastIndex\<close> seeks to has seven bytes of 0xff, one fewer than a log key.\<close>

lemma below_seven_ff: "length cs = Suc n \<Longrightarrow> cs \<le> replicate n CHR 0xFF \<longleftrightarrow> be_val cs + 256 < 256 ^ Suc n"
proof (induction n arbitrary: cs)
  case 0
  then show ?case by (cases cs) auto
next
  case (Suc n)
  then obtain c cs' where cs: "cs = c # cs'" "length cs' = Suc n" by (cases cs) auto
  have v: "be_val cs' < 256 ^ Suc n" using be_val_bound [of cs'] cs(2) by simp
  have c: "(of_char c :: nat) \<le> 255" using nat_of_char_less_256 [of c] by linarith
  show ?case
  proof (cases "c = CHR 0xFF")
    case True
    then show ?thesis using Suc.IH [OF cs(2)] cs by auto
  next
    case False
    then have "(of_char c :: nat) \<noteq> of_char CHR 0xFF" by (metis of_char_eq_iff)
    then have c': "(of_char c :: nat) < 255" using c by simp
    then have "c < CHR 0xFF" by (simp add: less_char_def)
    then have below: "cs \<le> replicate (Suc n) CHR 0xFF" by (simp add: cs)
    have "(of_char c + 1) * 256 ^ Suc n \<le> (255 :: nat) * 256 ^ Suc n"
      using c' by (intro mult_right_mono) simp_all
    then have "of_char c * 256 ^ Suc n + be_val cs' < (255 :: nat) * 256 ^ Suc n"
      using v unfolding distrib_right by linarith
    moreover have "(256 :: nat) \<le> 256 ^ Suc n" by simp
    ultimately have "of_char c * 256 ^ Suc n + be_val cs' + 256 < (255 :: nat) * 256 ^ Suc n + 256 ^ Suc n" by linarith
    then have "of_char c * 256 ^ Suc n + be_val cs' + 256 < (256 :: nat) ^ Suc (Suc n)" by simp
    with below show ?thesis using cs by simp
  qed
qed

lemma logkey_below_seek: "logkey i \<le> prefixLogs @ replicate 7 CHR 0xFF \<longleftrightarrow> unat i < 2 ^ 64 - 256"
  using below_seven_ff [of "uint64ToBytes i" 7] by (auto simp: logkey_def prefixLogs_def)

lemma confkey_above_seek: "\<not> confkey c \<le> prefixLogs @ replicate 7 CHR 0xFF"
  by (simp add: confkey_def prefixLogs_def prefixConf_def less_char_def)

lemma last_sorted_list_of_set:
  assumes "finite A" "A \<noteq> {}"
  shows "last (sorted_list_of_set A) = Max A"
proof (rule Max_eqI [symmetric])
  have ne: "sorted_list_of_set A \<noteq> []" using assms by simp
  then show "last (sorted_list_of_set A) \<in> A" using last_in_set [OF ne] assms(1) by simp
  fix y assume "y \<in> A"
  then have "y \<in> set (butlast (sorted_list_of_set A) @ [last (sorted_list_of_set A)])" using assms ne by simp
  moreover have "sorted (butlast (sorted_list_of_set A) @ [last (sorted_list_of_set A)])" using ne by simp
  ultimately show "y \<le> last (sorted_list_of_set A)" unfolding sorted_append by auto
qed (use assms in simp)

subsection \<open>The abstract log\<close>

text \<open>What writing entries does to the content.\<close>

definition put_log :: "'log msgpack \<Rightarrow> 'log \<Rightarrow> (bytes \<Rightarrow> bytes option) \<Rightarrow> bytes \<Rightarrow> bytes option" where
  "put_log mp log m = (case encodeMsgPack mp log of Inl e \<Rightarrow> m | Inr b \<Rightarrow> m(logkey (logIndex mp log) \<mapsto> b))"

definition put_logs :: "'log msgpack \<Rightarrow> 'log list \<Rightarrow> (bytes \<Rightarrow> bytes option) \<Rightarrow> bytes \<Rightarrow> bytes option" where
  "put_logs mp logs m = fold (put_log mp) logs m"

definition drop_logs :: "uint64 \<Rightarrow> uint64 \<Rightarrow> (bytes \<Rightarrow> bytes option) \<Rightarrow> bytes \<Rightarrow> bytes option" where
  "drop_logs lo hi m = (\<lambda>k. if \<exists>i. k = logkey i \<and> lo \<le> i \<and> i \<le> hi then None else m k)"

lemma put_logs_append: "put_logs mp (xs @ ys) m = put_logs mp ys (put_logs mp xs m)"
  by (simp add: put_logs_def)

lemma put_logs_simps [simp]: "put_logs mp [] m = m" "put_logs mp (l # ls) m = put_logs mp ls (put_log mp l m)"
  by (simp_all add: put_logs_def)

lemma put_log_other: "k \<noteq> logkey (logIndex mp l) \<Longrightarrow> put_log mp l m k = m k"
  by (simp add: put_log_def split: sum.split)

lemma put_logs_other: "k \<notin> (\<lambda>l. logkey (logIndex mp l)) ` set ls \<Longrightarrow> put_logs mp ls m k = m k"
  by (induction ls arbitrary: m) (auto simp: put_log_other)

lemma store_keys_put_logs: "store_keys m \<Longrightarrow> store_keys (put_logs mp ls m)"
proof (induction ls arbitrary: m)
  case (Cons l ls)
  have "store_keys (put_log mp l m)" using Cons.prems by (auto simp: store_keys_def put_log_def split: sum.splits if_splits)
  with Cons show ?case by simp
qed simp

end
