(* ===== verification/Log_Store.thy ===== *)
theory Log_Store
  imports Badger_Store
begin

text \<open>
  What the raft store of \<^verbatim>\<open>raft/badger_store.go\<close> does to the content of the database, from the laws of the
  database alone: writing entries one by one or in bulk, deleting a range, the bounds of the log, and the stable
  store beside it. The contract of a raft log store is the locale \<open>log_store\<close>; the store implements it over every
  healthy database.
\<close>

text \<open>The content after a run of writes: a prefix of the entries is there, all of them if there was no error.\<close>

definition prefix_stored :: "'log msgpack \<Rightarrow> 'log list \<Rightarrow> (bytes \<Rightarrow> bytes option) \<Rightarrow> error option \<Rightarrow>
    (bytes \<Rightarrow> bytes option) \<Rightarrow> bool" where
  "prefix_stored mp logs m err m' \<longleftrightarrow>
     (\<exists>pre rest. logs = pre @ rest \<and> m' = put_logs mp pre m \<and> (err = None \<longrightarrow> rest = []))"

lemma prefix_stored_trans:
  assumes "prefix_stored mp rest (put_logs mp pre m) err m'"
  shows "prefix_stored mp (pre @ rest) m err m'"
proof -
  from assms obtain pre' rest' where "rest = pre' @ rest'" "m' = put_logs mp pre' (put_logs mp pre m)"
      "err = None \<longrightarrow> rest' = []"
    by (auto simp: prefix_stored_def)
  then show ?thesis
    unfolding prefix_stored_def by (intro exI [of _ "pre @ pre'"] exI [of _ rest']) (simp add: put_logs_append)
qed

lemma prefix_stored_all: "prefix_stored mp logs m err (put_logs mp logs m)"
  and prefix_stored_pre: "prefix_stored mp (pre @ rest) m (Some e) (put_logs mp pre m)"
  unfolding prefix_stored_def by auto

text \<open>
  A database as raft fills it: log keys, configuration keys longer than eight bytes, and no entry with index 0. The
  last two conditions are what \<open>DeleteRange\<close> needs, because it looks at every key behind its range through a
  nine-byte buffer.
\<close>

definition raft_keys :: "(bytes \<Rightarrow> bytes option) \<Rightarrow> bool" where
  "raft_keys m \<longleftrightarrow> store_keys m \<and> (\<forall>c. confkey c \<in> dom m \<longrightarrow> 8 < length c) \<and> logkey 0 \<notin> dom m"

lemma KeyCopy9_confkey: "8 < length c \<Longrightarrow> KeyCopy9 (confkey c) = logkey 0"
  by (simp add: KeyCopy9_def confkey_def prefixConf_def replicate_zero_logkey)

lemma raft_keys_cases:
  assumes "raft_keys m" "k \<in> dom m"
  obtains (log) i where "k = logkey i" "KeyCopy9 k = k" "i \<noteq> 0"
  | (conf) c where "k = confkey c" "KeyCopy9 k = logkey 0" "k \<noteq> logkey 0"
proof -
  from assms consider i where "k = logkey i" | c where "k = confkey c" "8 < length c"
    unfolding raft_keys_def store_keys_def by blast
  then show thesis
  proof cases
    case (1 i)
    with assms have "i \<noteq> 0" by (auto simp: raft_keys_def)
    with 1 show thesis by (intro log) simp_all
  next
    case (2 c)
    then show thesis by (intro conf) (simp_all add: KeyCopy9_confkey)
  qed
qed

text \<open>What deleting a range leaves: nothing outside the range is touched; without an error the range is gone.\<close>

definition range_deleted :: "uint64 \<Rightarrow> uint64 \<Rightarrow> (bytes \<Rightarrow> bytes option) \<Rightarrow> error option \<Rightarrow>
    (bytes \<Rightarrow> bytes option) \<Rightarrow> bool" where
  "range_deleted lo hi m err m' \<longleftrightarrow>
     (\<forall>k. m' k = m k \<or> m' k = None \<and> (\<exists>i. k = logkey i \<and> lo \<le> i \<and> i \<le> hi)) \<and> (err = None \<longrightarrow> m' = drop_logs lo hi m)"

lemma range_deleted_none: "range_deleted lo hi m (Some e) m"
  and range_deleted_all: "range_deleted lo hi m err (drop_logs lo hi m)"
  by (auto simp: range_deleted_def drop_logs_def)

lemma restrict_map_UNIV [simp]: "m |` UNIV = m"
  by (auto simp: restrict_map_def)

lemma sorted_takeWhile_mem:
  "sorted xs \<Longrightarrow> k \<in> set xs \<Longrightarrow> (\<And>x. x \<in> set xs \<Longrightarrow> x \<le> k \<Longrightarrow> P x) \<Longrightarrow> k \<in> set (takeWhile P xs)"
  by (induction xs) auto

lemma sorted_prefix_mem:
  "sorted (xs @ y # ys) \<Longrightarrow> x \<in> set (xs @ y # ys) \<Longrightarrow> x < y \<Longrightarrow> x \<in> set xs"
  by (auto simp: sorted_append)

text \<open>The keys \<open>DeleteRange\<close> visits, and the effect of deleting those it copies.\<close>

abbreviation keys_from :: "uint64 \<Rightarrow> (bytes \<Rightarrow> bytes option) \<Rightarrow> bytes list" where
  "keys_from lo m \<equiv> sorted_list_of_set {x \<in> dom m. logkey lo \<le> x}"

lemma keys_from_set: "finite (dom m) \<Longrightarrow> set (keys_from lo m) = {x \<in> dom m. logkey lo \<le> x}"
  by simp

lemma erase_run:
  assumes "raft_keys m" "finite (dom m)"
  shows "m |` (- KeyCopy9 ` set (takeWhile (\<lambda>k. key_index (KeyCopy9 k) \<le> hi) (keys_from lo m))) = drop_logs lo hi m"
    (is "m |` (- KeyCopy9 ` set ?run) = _")
proof
  fix k
  have keys: "set (keys_from lo m) = {x \<in> dom m. logkey lo \<le> x}" by (rule keys_from_set [OF assms(2)])
  have "logkey i \<in> set ?run" if i: "logkey i \<in> dom m" "lo \<le> i" "i \<le> hi" for i
  proof (rule sorted_takeWhile_mem)
    fix x assume x: "x \<in> set (keys_from lo m)" "x \<le> logkey i"
    then have "x \<in> dom m" unfolding keys by simp
    with assms(1) show "key_index (KeyCopy9 x) \<le> hi"
    proof (cases rule: raft_keys_cases)
      case (log j)
      with x i show ?thesis by simp
    next
      case (conf c)
      then show ?thesis using x(2) by (simp flip: not_less)
    qed
  qed (use keys i in simp_all)
  then have del: "logkey i \<in> KeyCopy9 ` set ?run" if "logkey i \<in> dom m" "lo \<le> i" "i \<le> hi" for i
    using imageI [of "logkey i" "set ?run" KeyCopy9] that by simp
  have keep: "(\<exists>i. k = logkey i \<and> lo \<le> i \<and> i \<le> hi) \<or> k = logkey 0" if run: "k \<in> KeyCopy9 ` set ?run"
  proof -
    from run obtain x where x: "k = KeyCopy9 x" "x \<in> set ?run" by blast
    then have x': "x \<in> dom m" "logkey lo \<le> x" "key_index (KeyCopy9 x) \<le> hi"
      using set_takeWhileD [OF x(2)] unfolding keys by simp_all
    from assms(1) x'(1) show ?thesis
    proof (cases rule: raft_keys_cases)
      case (log i)
      then have "k = logkey i" "lo \<le> i" "i \<le> hi" using x(1) x'(2,3) by simp_all
      then show ?thesis by blast
    qed (simp add: x(1))
  qed
  show "(m |` (- KeyCopy9 ` set ?run)) k = drop_logs lo hi m k"
  proof (cases "\<exists>i. k = logkey i \<and> lo \<le> i \<and> i \<le> hi")
    case True
    then have "k \<in> dom m \<longrightarrow> k \<in> KeyCopy9 ` set ?run" using del by blast
    with True show ?thesis by (auto simp: restrict_map_def drop_logs_def)
  next
    case False
    then have "k \<in> KeyCopy9 ` set ?run \<longrightarrow> k \<notin> dom m" using keep assms(1) by (auto simp: raft_keys_def)
    with False show ?thesis by (auto simp: restrict_map_def drop_logs_def)
  qed
qed

text \<open>
  A transaction that is full at some key restarts from that key's index. For a log key this goes on where it stopped.
  For a configuration key the index read is 0, which is harmless only if no entry lies below the range.
\<close>

definition restart_safe :: "uint64 \<Rightarrow> (bytes \<Rightarrow> bytes option) \<Rightarrow> bool" where
  "restart_safe lo m \<longleftrightarrow> (\<forall>j. logkey j \<in> dom m \<longrightarrow> lo \<le> j)"

text \<open>\<open>interrupted lo hi m ks1 k ks2\<close>: the run over the keys from \<open>lo\<close> on has taken \<open>ks1\<close> and stopped at \<open>k\<close>.\<close>

definition interrupted :: "uint64 \<Rightarrow> uint64 \<Rightarrow> (bytes \<Rightarrow> bytes option) \<Rightarrow> bytes list \<Rightarrow> bytes \<Rightarrow> bytes list \<Rightarrow> bool" where
  "interrupted lo hi m ks1 k ks2 \<longleftrightarrow> raft_keys m \<and> finite (dom m) \<and> keys_from lo m = ks1 @ k # ks2 \<and>
     (\<forall>x \<in> set (ks1 @ [k]). key_index (KeyCopy9 x) \<le> hi)"

abbreviation taken :: "bytes list \<Rightarrow> (bytes \<Rightarrow> bytes option) \<Rightarrow> bytes \<Rightarrow> bytes option" where
  "taken ks m \<equiv> m |` (- KeyCopy9 ` set ks)"

lemma interrupted_keys:
  assumes "interrupted lo hi m ks1 k ks2"
  shows "set (ks1 @ k # ks2) = {x \<in> dom m. logkey lo \<le> x}" and "sorted (ks1 @ k # ks2)"
proof -
  have keys: "keys_from lo m = ks1 @ k # ks2" "finite (dom m)" using assms by (auto simp: interrupted_def)
  show "set (ks1 @ k # ks2) = {x \<in> dom m. logkey lo \<le> x}"
    using keys_from_set [OF keys(2), of lo] unfolding keys(1) .
  show "sorted (ks1 @ k # ks2)"
    using sorted_sorted_list_of_set [of "{x \<in> dom m. logkey lo \<le> x}"] unfolding keys(1) .
qed

lemma interrupted_taken:
  assumes int: "interrupted lo hi m ks1 k ks2"
  shows "taken ks1 m x = m x \<or> taken ks1 m x = None \<and> (\<exists>j. x = logkey j \<and> lo \<le> j \<and> j \<le> hi)"
proof (cases "x \<in> KeyCopy9 ` set ks1")
  case True
  have m: "raft_keys m" using int by (simp add: interrupted_def)
  obtain y where y: "x = KeyCopy9 y" "y \<in> set ks1" using True by blast
  then have "y \<in> {x \<in> dom m. logkey lo \<le> x}" using interrupted_keys(1) [OF int] by auto
  then have d: "y \<in> dom m" "logkey lo \<le> y" by simp_all
  from m d(1) show ?thesis
  proof (cases rule: raft_keys_cases)
    case (log j)
    then have "x = logkey j" "lo \<le> j" "j \<le> hi" using y d int by (auto simp: interrupted_def)
    then show ?thesis using True by auto
  next
    case (conf c)
    then have "m x = None" using y m by (auto simp: raft_keys_def)
    then show ?thesis by (simp add: restrict_map_def)
  qed
qed simp

lemma interrupted_gone:
  assumes int: "interrupted lo hi m ks1 k ks2" and "lo \<le> j" "logkey j < k"
  shows "taken ks1 m (logkey j) = None"
proof (cases "logkey j \<in> dom m")
  case True
  then have "logkey j \<in> set (ks1 @ k # ks2)" using assms interrupted_keys(1) [OF int] by simp
  then have "logkey j \<in> set ks1" using sorted_prefix_mem [OF interrupted_keys(2) [OF int]] assms(3) by blast
  then show ?thesis using imageI [of "logkey j" "set ks1" KeyCopy9] by simp
qed (auto simp: restrict_map_def)

lemma interrupted_raft_keys: "interrupted lo hi m ks1 k ks2 \<Longrightarrow> raft_keys (taken ks1 m)"
  by (auto simp: interrupted_def raft_keys_def store_keys_def restrict_map_def dom_def)

text \<open>The key at which the run stopped is a log key of the range, or a configuration key, read as index 0.\<close>

lemma interrupted_at:
  assumes int: "interrupted lo hi m ks1 k ks2" and i: "i = key_index (KeyCopy9 k)"
  obtains (log) "k = logkey i" "lo \<le> i" "KeyCopy9 k = k" | (conf) "i = 0" "\<And>j. logkey j < k" "KeyCopy9 k = logkey 0"
proof -
  have m: "raft_keys m" using int by (simp add: interrupted_def)
  have "k \<in> {x \<in> dom m. logkey lo \<le> x}" using interrupted_keys(1) [OF int] by auto
  then have k: "k \<in> dom m" "logkey lo \<le> k" by simp_all
  from m k(1) show thesis
  proof (cases rule: raft_keys_cases)
    case (log j)
    then show thesis using k(2) i that(1) by simp
  next
    case (conf c)
    then show thesis using i that(2) by simp
  qed
qed

lemma interrupted_safe:
  assumes int: "interrupted lo hi m ks1 k ks2" and i: "i = key_index (KeyCopy9 k)" and low: "restart_safe lo m"
  shows "restart_safe i (taken ks1 m)"
  unfolding restart_safe_def
proof (intro allI impI)
  fix j assume j: "logkey j \<in> dom (taken ks1 m)"
  then have "logkey j \<in> dom m" by auto
  then have "lo \<le> j" using low by (simp add: restart_safe_def)
  from int i show "i \<le> j"
  proof (cases rule: interrupted_at)
    case log
    show ?thesis
    proof (rule ccontr)
      assume "\<not> i \<le> j"
      then have "logkey j < k" using log(1) by simp
      with interrupted_gone [OF int \<open>lo \<le> j\<close>] j show False unfolding dom_def by simp
    qed
  qed simp
qed

lemma interrupted_range:
  assumes int: "interrupted lo hi m ks1 k ks2" and i: "i = key_index (KeyCopy9 k)"
    and safe: "k = logkey i \<or> restart_safe lo m" and rd: "range_deleted i hi (taken ks1 m) err m2"
  shows "range_deleted lo hi m err m2"
proof -
  have low: "lo \<le> j \<or> m (logkey j) = None" if "i \<le> j" for j
    using int i
  proof (cases rule: interrupted_at)
    case log
    then show ?thesis using that by (metis order_trans)
  next
    case conf
    then have "restart_safe lo m" using safe by auto
    then show ?thesis by (auto simp: restart_safe_def dom_def)
  qed
  have gone: "taken ks1 m (logkey j) = None" if "lo \<le> j" "\<not> i \<le> j" for j
    using int i by (cases rule: interrupted_at) (use interrupted_gone [OF int that(1)] that(2) in simp_all)
  have sub: "m2 x = m x \<or> m2 x = None \<and> (\<exists>j. x = logkey j \<and> lo \<le> j \<and> j \<le> hi)" for x
  proof -
    from rd have "m2 x = taken ks1 m x \<or> m2 x = None \<and> (\<exists>j. x = logkey j \<and> i \<le> j \<and> j \<le> hi)"
      by (simp add: range_deleted_def)
    then show ?thesis using interrupted_taken [OF int, of x] low by metis
  qed
  have "m2 = drop_logs lo hi m" if "err = None"
  proof
    fix x
    have m2: "m2 = drop_logs i hi (taken ks1 m)" using rd that by (simp add: range_deleted_def)
    show "m2 x = drop_logs lo hi m x"
    proof (cases "\<exists>j. x = logkey j \<and> lo \<le> j \<and> j \<le> hi")
      case True
      then obtain j where j: "x = logkey j" "lo \<le> j" "j \<le> hi" by blast
      have "m2 x = None" using gone [OF j(2)] j unfolding m2 by (cases "i \<le> j") (auto simp: drop_logs_def)
      with True show ?thesis by (simp add: drop_logs_def)
    next
      case False
      with sub [of x] show ?thesis by (auto simp: drop_logs_def)
    qed
  qed
  with sub show ?thesis by (auto simp: range_deleted_def)
qed

context badger_laws
begin

subsection \<open>Writing entries\<close>

lemma StoreLog_content:
  assumes "StoreLog B mp log db = (err, db')"
  shows "content db' = (if err = None then put_log mp log (content db) else content db)"
    and "err = None \<Longrightarrow> \<exists>b. encodeMsgPack mp log = Inr b"
proof -
  have *: "if err = None then \<exists>t'. txnSet B (NewTransaction B db) k b = (None, t') \<and> content db' = tview t'
      else content db' = content db" if "Update B db (\<lambda>t. txnSet B t k b) = (err, db')" for k b
  proof (rule Update_cases [OF that])
    fix t e t' assume "tbase t = content db" "txnSet B t k b = (e, t')"
    then show "tbase t' = content db" using set_ok set_err by (cases e) auto
  qed
  show "content db' = (if err = None then put_log mp log (content db) else content db)"
    using assms * set_ok begin_view
    by (fastforce simp: StoreLog_def put_log_def split: sum.splits if_splits)
  show "err = None \<Longrightarrow> \<exists>b. encodeMsgPack mp log = Inr b"
    using assms by (auto simp: StoreLog_def split: sum.splits)
qed

text \<open>One transaction of \<open>StoreLogs\<close> takes a prefix of the entries, all of them unless it became too big.\<close>

lemma store_batch_view:
  "case store_batch B mp logs t of
     Filled t' \<Rightarrow> tview t' = put_logs mp logs (tview t) \<and> tbase t' = tbase t
   | Full t' rest \<Rightarrow> \<exists>pre. logs = pre @ rest \<and> rest \<noteq> [] \<and> tview t' = put_logs mp pre (tview t) \<and> tbase t' = tbase t
   | Failed e \<Rightarrow> True"
proof (induction logs arbitrary: t)
  case (Cons log logs)
  show ?case
  proof (cases "encodeMsgPack mp log")
    case (Inr b)
    obtain e t1 where t1: "txnSet B t (logkey (logIndex mp log)) b = (e, t1)" by fastforce
    show ?thesis
    proof (cases e)
      case None
      then have v: "tview t1 = put_log mp log (tview t)" "tbase t1 = tbase t"
        using t1 set_ok Inr by (auto simp: put_log_def)
      have "\<exists>pre. log # logs = pre @ rest \<and> tview t' = put_logs mp pre (tview t)"
        if "logs = pre @ rest" "tview t' = put_logs mp pre (tview t1)" for pre rest t'
        using that v by (intro exI [of _ "log # pre"]) simp
      then show ?thesis using Cons.IH [of t1] Inr t1 None v by (fastforce split: batch.splits)
    next
      case (Some err)
      then have "tview t1 = tview t" "tbase t1 = tbase t" using t1 set_err by auto
      then show ?thesis using Inr t1 Some by simp
    qed
  qed simp
qed simp

text \<open>However many transactions it takes, a successful \<open>StoreLogs\<close> has written all entries in order; a failing one a prefix.\<close>

lemma StoreLogs_step:
  assumes rec: "\<And>logs db r. f logs db = Some r \<Longrightarrow> prefix_stored mp logs (content db) (fst r) (content (snd r))"
    and step: "(case store_batch B mp logs (NewTransaction B db) of Filled t \<Rightarrow> Some (txnCommit B db t)
      | Full t logs' \<Rightarrow> (case txnCommit B db t of (None, db') \<Rightarrow> f logs' db' | (Some err, db') \<Rightarrow> Some (Some err, db'))
      | Failed err \<Rightarrow> Some (Some err, db)) = Some r"
  shows "prefix_stored mp logs (content db) (fst r) (content (snd r))"
proof (cases "store_batch B mp logs (NewTransaction B db)")
  case (Filled t)
  then have "tview t = put_logs mp logs (content db)" "tbase t = content db"
    using store_batch_view [of mp logs "NewTransaction B db"] by (simp_all add: begin_view begin_base)
  moreover obtain e db1 where r: "r = (e, db1)" by fastforce
  moreover have "txnCommit B db t = (e, db1)" using step Filled r by simp
  ultimately show ?thesis
    using commit_ok [of t db db1] commit_err [of db t _ db1] prefix_stored_all [of mp logs]
      prefix_stored_pre [of mp "[]" logs]
    by (cases e) simp_all
next
  case (Full t logs')
  then obtain pre where pre: "logs = pre @ logs'" "tview t = put_logs mp pre (content db)" "tbase t = content db"
    using store_batch_view [of mp logs "NewTransaction B db"] by (auto simp: begin_view begin_base)
  obtain e db1 where db1: "txnCommit B db t = (e, db1)" by fastforce
  show ?thesis
  proof (cases e)
    case None
    then have "f logs' db1 = Some r" using step Full db1 by simp
    moreover have "content db1 = put_logs mp pre (content db)" using commit_ok [OF pre(3)] db1 None pre(2) by simp
    ultimately show ?thesis using rec [of logs' db1 r] prefix_stored_trans unfolding pre(1) by metis
  next
    case (Some x)
    then have "r = (Some x, db1)" using step Full db1 by simp
    then show ?thesis using commit_err [of db t x db1] db1 Some prefix_stored_pre [of mp "[]" logs] by simp
  qed
next
  case (Failed e)
  then have "r = (Some e, db)" using step by simp
  then show ?thesis using prefix_stored_pre [of mp "[]" logs] by simp
qed

lemma StoreLogs_content:
  assumes "StoreLogs B mp logs db = Some r"
  shows "prefix_stored mp logs (content db) (fst r) (content (snd r))"
proof -
  let ?P = "\<lambda>B' mp logs db r. B' = B \<longrightarrow> prefix_stored mp logs (content db) (fst r) (content (snd r))"
  have "?P B mp logs db r"
  proof (rule StoreLogs.raw_induct [of ?P, OF _ assms], intro impI, goal_cases)
    case (1 f B' mp logs db r)
    have rec: "\<And>logs db r. f B mp logs db = Some r \<Longrightarrow> prefix_stored mp logs (content db) (fst r) (content (snd r))"
      using 1(1) by blast
    show ?case by (rule StoreLogs_step [of "f B mp", OF rec 1(2) [unfolded 1(3)]])
  qed
  then show ?thesis by simp
qed

subsection \<open>Deleting a range\<close>

lemma delete_batch_view:
  "case delete_batch B hi ks t of
     Filled t' \<Rightarrow> tview t' = taken (takeWhile (\<lambda>k. key_index (KeyCopy9 k) \<le> hi) ks) (tview t) \<and> tbase t' = tbase t
   | Full t' i \<Rightarrow> \<exists>ks1 k ks2 t0. ks = ks1 @ k # ks2 \<and> (\<forall>x \<in> set (ks1 @ [k]). key_index (KeyCopy9 x) \<le> hi) \<and>
       i = key_index (KeyCopy9 k) \<and> tview t' = taken ks1 (tview t) \<and> tbase t' = tbase t \<and>
       fst (txnDelete B t0 (KeyCopy9 k)) = Some ErrTxnTooBig
   | Failed e \<Rightarrow> True"
proof (induction ks arbitrary: t)
  case (Cons k ks)
  obtain e t1 where t1: "txnDelete B t (KeyCopy9 k) = (e, t1)" by fastforce
  show ?case
  proof (cases "key_index (KeyCopy9 k) > hi")
    case True
    then have "takeWhile (\<lambda>k. key_index (KeyCopy9 k) \<le> hi) (k # ks) = []" by simp
    with True show ?thesis by (simp del: takeWhile.simps add: restrict_map_def)
  next
    case le: False
    show ?thesis
    proof (cases e)
      case None
      then have v: "tview t1 = (tview t)(KeyCopy9 k := None)" "tbase t1 = tbase t" using t1 delete_ok by auto
      have eq: "taken (k # ks') (tview t) = taken ks' (tview t1)" for ks'
        by (auto simp: v restrict_map_def fun_eq_iff)
      show ?thesis
      proof (cases "delete_batch B hi ks t1")
        case (Filled t')
        have "takeWhile (\<lambda>k. key_index (KeyCopy9 k) \<le> hi) (k # ks) = k # takeWhile (\<lambda>k. key_index (KeyCopy9 k) \<le> hi) ks"
          using le by simp
        then show ?thesis using Filled Cons.IH [of t1] t1 None le v(2) eq by (simp del: takeWhile.simps)
      next
        case (Full t' i)
        then obtain ks1 k' ks2 t0 where "ks = ks1 @ k' # ks2" "\<forall>x \<in> set (ks1 @ [k']). key_index (KeyCopy9 x) \<le> hi"
            "i = key_index (KeyCopy9 k')" "tview t' = taken ks1 (tview t1)" "tbase t' = tbase t1"
            "fst (txnDelete B t0 (KeyCopy9 k')) = Some ErrTxnTooBig"
          using Cons.IH [of t1] by auto
        then show ?thesis using Full t1 None le v(2) eq [of ks1]
          by (simp, intro exI [of _ "k # ks1"] exI [of _ k'] exI [of _ ks2]) auto
      qed (use t1 None le in simp)
    next
      case (Some err)
      then have v: "tview t1 = tview t" "tbase t1 = tbase t" using t1 delete_err by auto
      show ?thesis
      proof (cases "err = ErrTxnTooBig")
        case True
        then have full: "delete_batch B hi (k # ks) t = Full t1 (key_index (KeyCopy9 k))" using t1 Some le by simp
        show ?thesis
          unfolding full batch.case
          by (intro exI [of _ "[]"] exI [of _ k] exI [of _ ks] exI [of _ t])
            (use t1 Some True le v in \<open>auto simp: restrict_map_def\<close>)
      qed (use t1 Some le in simp)
    qed
  qed
qed simp

text \<open>
  One round of \<open>DeleteRange\<close>. The run may be restarted only where that is safe: at a log key, at a configuration key
  when no entry lies below the range, or never because the library does not refuse the deletion.
\<close>

definition delete_safe :: "uint64 \<Rightarrow> 'db \<Rightarrow> bool" where
  "delete_safe lo db \<longleftrightarrow> raft_keys (content db) \<and>
     (restart_safe lo (content db) \<or> (\<forall>t. fst (txnDelete B t (logkey 0)) \<noteq> Some ErrTxnTooBig))"

lemma DeleteRange_step:
  assumes rec: "\<And>lo db r. f lo hi db = Some r \<Longrightarrow> delete_safe lo db \<Longrightarrow>
      range_deleted lo hi (content db) (fst r) (content (snd r))"
    and step: "(let t = NewTransaction B db in
      case delete_batch B hi (txnSeek B t False (logkey lo)) t of Filled t' \<Rightarrow> Some (txnCommit B db t')
      | Full t' i \<Rightarrow> (case txnCommit B db t' of (None, db') \<Rightarrow> f i hi db' | (Some err, db') \<Rightarrow> Some (Some err, db'))
      | Failed err \<Rightarrow> Some (Some err, db)) = Some r"
    and safe: "delete_safe lo db"
  shows "range_deleted lo hi (content db) (fst r) (content (snd r))"
proof -
  let ?ks = "keys_from lo (content db)" and ?t = "NewTransaction B db"
  have m: "raft_keys (content db)" "finite (dom (content db))" using safe finite_content by (auto simp: delete_safe_def)
  have seek: "txnSeek B ?t False (logkey lo) = ?ks" by (rule seek_up_begin)
  note view = delete_batch_view [where hi = hi and ks = ?ks and t = ?t, unfolded begin_view begin_base]
  show ?thesis
  proof (cases "delete_batch B hi ?ks ?t")
    case (Filled t')
    then have t': "tview t' = drop_logs lo hi (content db)" "tbase t' = content db"
      using view erase_run [OF m] by simp_all
    obtain e db1 where r: "r = (e, db1)" by fastforce
    then have "txnCommit B db t' = (e, db1)" using step Filled seek by simp
    then show ?thesis
      using t' r commit_ok [of t' db db1] commit_err [of db t' _ db1] range_deleted_all range_deleted_none
      by (cases e) simp_all
  next
    case (Full t' i)
    then obtain ks1 k ks2 t0 where k: "interrupted lo hi (content db) ks1 k ks2" "i = key_index (KeyCopy9 k)"
        "tview t' = taken ks1 (content db)" "tbase t' = content db" "fst (txnDelete B t0 (KeyCopy9 k)) = Some ErrTxnTooBig"
      using view m unfolding interrupted_def by auto
    have safe_k: "k = logkey i \<or> restart_safe lo (content db)"
      using k(1,2) by (cases rule: interrupted_at) (use safe k(5) in \<open>auto simp: delete_safe_def\<close>)
    obtain e db1 where db1: "txnCommit B db t' = (e, db1)" by fastforce
    show ?thesis
    proof (cases e)
      case None
      then have c1: "content db1 = taken ks1 (content db)" using commit_ok [OF k(4)] db1 k(3) by simp
      have "delete_safe i db1"
        using safe interrupted_raft_keys [OF k(1)] interrupted_safe [OF k(1,2)] unfolding delete_safe_def c1 by blast
      moreover have "f i hi db1 = Some r" using step Full seek db1 None by simp
      ultimately have "range_deleted i hi (content db1) (fst r) (content (snd r))" by (rule rec [rotated])
      then show ?thesis unfolding c1 by (rule interrupted_range [OF k(1,2) safe_k])
    next
      case (Some x)
      then have "r = (Some x, db1)" using step Full seek db1 by simp
      then show ?thesis using commit_err db1 Some range_deleted_none by simp
    qed
  next
    case (Failed e)
    then have "r = (Some e, db)" using step seek by simp
    then show ?thesis using range_deleted_none by simp
  qed
qed

lemma DeleteRange_content:
  assumes "DeleteRange B lo hi db = Some r" "delete_safe lo db"
  shows "range_deleted lo hi (content db) (fst r) (content (snd r))"
proof -
  let ?P = "\<lambda>B' lo hi db r. B' = B \<longrightarrow> delete_safe lo db \<longrightarrow> range_deleted lo hi (content db) (fst r) (content (snd r))"
  have "?P B lo hi db r"
  proof (rule DeleteRange.raw_induct [of ?P, OF _ assms(1)], intro impI, goal_cases)
    case (1 f B' lo hi db r)
    have rec: "\<And>lo db r. f B lo hi db = Some r \<Longrightarrow> delete_safe lo db \<Longrightarrow>
        range_deleted lo hi (content db) (fst r) (content (snd r))"
      using 1(1) by blast
    show ?case by (rule DeleteRange_step [of "f B", OF rec 1(2) [unfolded 1(3)] 1(4)])
  qed
  with assms(2) show ?thesis by simp
qed

end

subsection \<open>The bounds of the log\<close>

lemma store_keys_cases:
  assumes "store_keys m" "k \<in> dom m"
  obtains (log) i where "k = logkey i" "i \<in> log_indices m" | (conf) c where "k = confkey c"
proof -
  from assms consider i where "k = logkey i" | c where "k = confkey c" unfolding store_keys_def by blast
  then show thesis using assms(2) that by cases (simp_all add: log_indices_def)
qed

lemma rev_sorted_list_of_set:
  assumes "finite A" "A \<noteq> {}"
  shows "\<exists>ks. rev (sorted_list_of_set A) = Max A # ks"
proof -
  have "sorted_list_of_set A = butlast (sorted_list_of_set A) @ [Max A]"
    using append_butlast_last_id [of "sorted_list_of_set A"] last_sorted_list_of_set [OF assms] assms by simp
  then show ?thesis by (intro exI [of _ "rev (butlast (sorted_list_of_set A))"]) simp
qed

lemma Min_logkeys:
  assumes "store_keys m" "finite (dom m)" "log_indices m \<noteq> {}"
  shows "Min (dom m) = logkey (Min (log_indices m))"
proof (rule Min_eqI)
  show "logkey (Min (log_indices m)) \<in> dom m"
    using Min_in [OF _ assms(3)] by (simp add: log_indices_def)
  fix k assume "k \<in> dom m"
  with assms(1) show "logkey (Min (log_indices m)) \<le> k"
    by (cases rule: store_keys_cases) (simp_all add: less_imp_le)
qed (rule assms(2))

lemma Max_logkeys:
  assumes "finite I" "I \<noteq> {}"
  shows "Max (logkey ` I) = logkey (Max I)"
  using assms by (intro Max_eqI) auto

context badger_healthy
begin

lemma FirstIndex_Min:
  assumes "store_keys (content db)"
  shows "FirstIndex B db = Ret (Inr (if log_indices (content db) = {} then 0 else Min (log_indices (content db))))"
proof -
  let ?m = "content db"
  have all: "{x \<in> dom ?m. prefixLogs \<le> x} = dom ?m"
    using store_keys_cases [OF assms] prefixLogs_le_logkey prefixLogs_le_confkey by blast
  have fin: "finite (dom ?m)" by (rule finite_content)
  have it: "txnSeek B (NewTransaction B db) False prefixLogs = sorted_list_of_set (dom ?m)"
    unfolding seek_up_begin all ..
  show ?thesis
  proof (cases "dom ?m = {}")
    case True
    then have "log_indices ?m = {}" by (auto simp: log_indices_def)
    with True show ?thesis by (simp add: FirstIndex_def View_def open_db index_result_def it)
  next
    case False
    note sl = sorted_list_of_set_nonempty [OF fin False]
    show ?thesis
    proof (cases "log_indices ?m = {}")
      case True
      have "Min (dom ?m) \<in> dom ?m" using fin False by simp
      then obtain c where "Min (dom ?m) = confkey c"
        using True by (cases rule: store_keys_cases [OF assms]) auto
      then show ?thesis using True by (simp add: FirstIndex_def View_def open_db index_result_def it sl)
    next
      case False
      then show ?thesis
        using Min_logkeys [OF assms fin False] by (simp add: FirstIndex_def View_def open_db index_result_def it sl)
    qed
  qed
qed

text \<open>The last index, of the entries \<open>LastIndex\<close> can see: those below the place it seeks to.\<close>

lemma LastIndex_Max:
  assumes "store_keys (content db)"
  shows "LastIndex B db = Ret (Inr (let I = {i \<in> log_indices (content db). unat i < 2 ^ 64 - 256}
    in if I = {} then 0 else Max I))"
proof -
  let ?m = "content db" and ?I = "{i \<in> log_indices (content db). unat i < 2 ^ 64 - 256}"
  have keys: "{x \<in> dom ?m. x \<le> prefixLogs @ replicate 7 CHR 0xFF} = logkey ` ?I"
  proof (intro set_eqI iffI)
    fix x assume x: "x \<in> {x \<in> dom ?m. x \<le> prefixLogs @ replicate 7 CHR 0xFF}"
    then have "x \<in> dom ?m" by simp
    with assms show "x \<in> logkey ` ?I"
      by (cases rule: store_keys_cases) (use x logkey_below_seek confkey_above_seek in auto)
  qed (use logkey_below_seek in \<open>auto simp: log_indices_def\<close>)
  have fin: "finite ?I" by simp
  have it: "txnSeek B (NewTransaction B db) True (prefixLogs @ replicate 7 CHR 0xFF) = rev (sorted_list_of_set (logkey ` ?I))"
    unfolding seek_down_begin keys ..
  show ?thesis
  proof (cases "?I = {}")
    case True
    then show ?thesis by (simp only: LastIndex_def View_def open_db index_result_def it Let_def) simp
  next
    case False
    then have ne: "logkey ` ?I \<noteq> {}" "finite (logkey ` ?I)" by simp_all
    then obtain ks where "rev (sorted_list_of_set (logkey ` ?I)) = logkey (Max ?I) # ks"
      using rev_sorted_list_of_set [OF ne(2,1)] unfolding Max_logkeys [OF fin False] by blast
    with False show ?thesis by (simp only: LastIndex_def View_def open_db index_result_def it Let_def) simp
  qed
qed

subsection \<open>Reading and writing without faults\<close>

lemma GetLog_content:
  "GetLog B mp db i l0 =
     (case content db (logkey i) of None \<Rightarrow> (Some ErrLogNotFound, l0) | Some b \<Rightarrow> decodeMsgPack mp b l0)"
  by (simp add: GetLog_def View_def open_db get_total begin_view split: option.split)

lemma StoreLog_total: "encodeMsgPack mp l = Inr b \<Longrightarrow> \<exists>db'. StoreLog B mp l db = (None, db')"
  using fresh_set [of db "logkey (logIndex mp l)" b] commit_total
  by (auto simp: StoreLog_def Update_def open_db split: prod.splits option.splits) (metis fst_conv prod.collapse)

lemma store_batch_total:
  assumes "\<forall>l \<in> set logs. \<exists>b. encodeMsgPack mp l = Inr b"
  shows "store_batch B mp logs t \<noteq> Failed e"
  using assms
proof (induction logs arbitrary: t)
  case (Cons l logs)
  then obtain b where b: "encodeMsgPack mp l = Inr b" by auto
  obtain e t1 where t1: "txnSet B t (logkey (logIndex mp l)) b = (e, t1)" by fastforce
  then have "e = None \<or> e = Some ErrTxnTooBig" using set_total [of t "logkey (logIndex mp l)" b] by simp
  with Cons b t1 show ?case by auto
qed simp

text \<open>Every transaction takes at least one entry, so \<open>StoreLogs\<close> comes to an end.\<close>

lemma store_batch_progress:
  assumes "store_batch B mp logs (NewTransaction B db) = Full t rest"
  shows "length rest < length logs"
proof (cases logs)
  case (Cons l ls)
  obtain b where b: "encodeMsgPack mp l = Inr b" using assms Cons by (auto split: sum.splits)
  obtain t1 where "txnSet B (NewTransaction B db) (logkey (logIndex mp l)) b = (None, t1)"
    using fresh_set [of db "logkey (logIndex mp l)" b] by (metis prod.collapse)
  with assms Cons b have "store_batch B mp ls t1 = Full t rest" by simp
  then obtain pre where "ls = pre @ rest" using store_batch_view [of mp ls t1] by auto
  then show ?thesis by (simp add: Cons)
qed (use assms in simp)

lemma StoreLogs_total:
  "\<forall>l \<in> set logs. \<exists>b. encodeMsgPack mp l = Inr b \<Longrightarrow> \<exists>db'. StoreLogs B mp logs db = Some (None, db')"
proof (induction "length logs" arbitrary: logs db rule: less_induct)
  case less
  have commit: "\<exists>db'. txnCommit B db t = (None, db')" for t
    using commit_total [of db t] by (metis prod.collapse)
  show ?case
  proof (cases "store_batch B mp logs (NewTransaction B db)")
    case (Filled t)
    with commit [of t] show ?thesis by (auto simp: StoreLogs.simps [of B mp logs])
  next
    case (Full t rest)
    obtain pre where pre: "logs = pre @ rest"
      using store_batch_view [of mp logs "NewTransaction B db"] Full by auto
    obtain db1 where db1: "txnCommit B db t = (None, db1)" using commit by blast
    have "\<exists>db'. StoreLogs B mp rest db1 = Some (None, db')"
      using less.prems by (intro less.hyps [OF store_batch_progress [OF Full]]) (simp add: pre)
    with Full db1 show ?thesis by (simp add: StoreLogs.simps [of B mp logs])
  next
    case (Failed e)
    with store_batch_total [OF less.prems] show ?thesis by blast
  qed
qed

end

subsection \<open>The log store contract\<close>

text \<open>
  What raft relies on of a log store: a stored entry is read back under its index, other indices are untouched, and
  storing a list acts as storing its entries one after the other.
\<close>

locale log_store =
  fixes get :: "'db \<Rightarrow> uint64 \<Rightarrow> 'log \<Rightarrow> error option \<times> 'log"
    and store :: "'log \<Rightarrow> 'db \<Rightarrow> error option \<times> 'db"
    and bulk :: "'log list \<Rightarrow> 'db \<Rightarrow> (error option \<times> 'db) option"
    and idx :: "'log \<Rightarrow> uint64"
    and writable :: "'log \<Rightarrow> bool"
  assumes store_total: "writable l \<Longrightarrow> \<exists>db'. store l db = (None, db')"
    and get_same: "store l db = (None, db') \<Longrightarrow> get db' (idx l) l0 = (None, l)"
    and get_other: "store l db = (None, db') \<Longrightarrow> i \<noteq> idx l \<Longrightarrow> get db' i l0 = get db i l0"
    and bulk_is_store: "\<forall>l \<in> set ls. writable l \<Longrightarrow>
      \<exists>db'. bulk ls db = Some (None, db') \<and> (\<forall>i l0. get db' i l0 = get (fold (\<lambda>l d. snd (store l d)) ls db) i l0)"
begin

lemma store_snd: "writable l \<Longrightarrow> store l db = (None, snd (store l db))"
  using store_total [of l db] by auto

lemma fold_get_other:
  "\<forall>l \<in> set ls. writable l \<Longrightarrow> i \<notin> idx ` set ls \<Longrightarrow> get (fold (\<lambda>l d. snd (store l d)) ls db) i l0 = get db i l0"
  by (induction ls arbitrary: db) (auto simp: get_other [OF store_snd])

lemma fold_get:
  "\<forall>l \<in> set ls. writable l \<Longrightarrow> distinct (map idx ls) \<Longrightarrow> l \<in> set ls \<Longrightarrow>
   get (fold (\<lambda>l d. snd (store l d)) ls db) (idx l) l0 = (None, l)"
proof (induction ls arbitrary: db)
  case (Cons a ls)
  show ?case
  proof (cases "l = a")
    case True
    with Cons.prems show ?thesis by (simp add: fold_get_other get_same [OF store_snd])
  qed (use Cons in simp)
qed simp

text \<open>After storing a list with distinct indices, each entry is found under its index and all others are as before.\<close>

lemma bulk_get:
  assumes "\<forall>l \<in> set ls. writable l" "distinct (map idx ls)"
  shows "\<exists>db'. bulk ls db = Some (None, db') \<and> (\<forall>l \<in> set ls. \<forall>l0. get db' (idx l) l0 = (None, l)) \<and>
    (\<forall>i l0. i \<notin> idx ` set ls \<longrightarrow> get db' i l0 = get db i l0)"
  using bulk_is_store [OF assms(1), of db] fold_get [OF assms] fold_get_other [OF assms(1)] by metis

end

end
