(* ===== verification/Raft_Store.thy ===== *)
theory Raft_Store
  imports Log_Store
begin

text \<open>
  The raft store of \<^verbatim>\<open>raft/badger_store.go\<close> meets the contracts of a log store and of a stable store over every
  healthy database and every message-pack coder that decodes what it encoded. The properties of the component are
  at the end; their witnesses run the model on the in-memory database.
\<close>

locale raft_store = badger_healthy +
  fixes mp :: "'log msgpack"
  assumes decode_encode: "encodeMsgPack mp l = Inr b \<Longrightarrow> decodeMsgPack mp b l0 = (None, l)"
begin

abbreviation writable :: "'log \<Rightarrow> bool" where
  "writable l \<equiv> \<exists>b. encodeMsgPack mp l = Inr b"

lemma fold_StoreLog_content:
  "\<forall>l \<in> set ls. writable l \<Longrightarrow> content (fold (\<lambda>l d. snd (StoreLog B mp l d)) ls db) = put_logs mp ls (content db)"
proof (induction ls arbitrary: db)
  case (Cons l ls)
  then obtain db' where "StoreLog B mp l db = (None, db')" using StoreLog_total by force
  with StoreLog_content(1) [OF this] Cons show ?case by simp
qed simp

lemma StoreLog_get:
  assumes "StoreLog B mp l db = (None, db')"
  shows "GetLog B mp db' (logIndex mp l) l0 = (None, l)"
    and "i \<noteq> logIndex mp l \<Longrightarrow> GetLog B mp db' i l0 = GetLog B mp db i l0"
proof -
  obtain b where b: "encodeMsgPack mp l = Inr b" using StoreLog_content(2) [OF assms] by blast
  have c: "content db' = (content db)(logkey (logIndex mp l) \<mapsto> b)"
    using StoreLog_content(1) [OF assms] b by (simp add: put_log_def)
  show "GetLog B mp db' (logIndex mp l) l0 = (None, l)" using decode_encode [OF b] by (simp add: GetLog_content c)
  show "i \<noteq> logIndex mp l \<Longrightarrow> GetLog B mp db' i l0 = GetLog B mp db i l0" by (simp add: GetLog_content c)
qed

lemma StoreLogs_is_fold:
  assumes "\<forall>l \<in> set ls. writable l"
  shows "\<exists>db'. StoreLogs B mp ls db = Some (None, db') \<and>
    content db' = content (fold (\<lambda>l d. snd (StoreLog B mp l d)) ls db)"
proof -
  obtain db' where db': "StoreLogs B mp ls db = Some (None, db')" using StoreLogs_total [OF assms] by blast
  with StoreLogs_content [OF db'] show ?thesis by (simp add: prefix_stored_def fold_StoreLog_content [OF assms])
qed

end

sublocale raft_store \<subseteq> ls: log_store "GetLog B mp" "StoreLog B mp" "StoreLogs B mp" "logIndex mp"
    "\<lambda>l. \<exists>b. encodeMsgPack mp l = Inr b"
proof unfold_locales
  show "\<exists>b. encodeMsgPack mp l = Inr b \<Longrightarrow> \<exists>db'. StoreLog B mp l db = (None, db')" for l db
    by (elim exE) (rule StoreLog_total)
  show "\<forall>l\<in>set ls. \<exists>b. encodeMsgPack mp l = Inr b \<Longrightarrow>
      \<exists>db'. StoreLogs B mp ls db = Some (None, db') \<and>
        (\<forall>i l0. GetLog B mp db' i l0 = GetLog B mp (fold (\<lambda>l d. snd (StoreLog B mp l d)) ls db) i l0)" for ls db
    using StoreLogs_is_fold [of ls db] by (auto simp: GetLog_content)
qed (simp_all add: StoreLog_get)

context raft_store
begin

lemmas logs_bulk_get = ls.bulk_get

end

subsection \<open>The stable store\<close>

context badger_healthy
begin

lemma Store_Set_content:
  "\<exists>db'. Store_Set B k v db = (None, db') \<and> content db' = (content db)(confkey k \<mapsto> v)"
proof -
  obtain t where t: "txnSet B (NewTransaction B db) (confkey k) v = (None, t)"
    using fresh_set [of db "confkey k" v] by (metis prod.collapse)
  then have v: "tview t = (content db)(confkey k \<mapsto> v)" "tbase t = content db"
    using set_ok [OF t] begin_view begin_base by auto
  obtain db' where db': "txnCommit B db t = (None, db')" using commit_total [of db t] by (metis prod.collapse)
  with commit_ok [OF v(2) db'] t v show ?thesis by (simp add: Store_Set_def Update_def open_db)
qed

lemma Store_Get_content:
  "Store_Get B k db = (case content db (confkey k) of None \<Rightarrow> Inl ErrKeyNotFound | Some v \<Rightarrow> Inr v)"
  by (simp add: Store_Get_def View_def open_db get_total begin_view split: option.split)

end

subsection \<open>Running the store\<close>

text \<open>A message-pack coder for entries that are pairs of an index and data.\<close>

definition pair_codec :: "(uint64 \<times> bytes) msgpack" where
  "pair_codec = \<lparr>
     encoderEncode = (\<lambda>l. (uint64ToBytes (fst l) @ snd l, None)),
     decoderDecode = (\<lambda>b l. case bytesToUint64 b of Ret i \<Rightarrow> (None, (i, drop 8 b)) | _ \<Rightarrow> (Some EOF, l)),
     logIndex = fst\<rparr>"

lemmas codec_defs = pair_codec_def encodeMsgPack_def decodeMsgPack_def

interpretation mem: raft_store mem_badger mem_content mem_view mem_base pair_codec
  by unfold_locales (auto simp: codec_defs)

subsection \<open>Properties\<close>

text \<open>
  C5. \<open>StoreLogs\<close> ends and is equivalent to storing the entries one after the other: over a healthy database, whose
  transactions may become too big after any number of writes but the first, it returns without an error for every list
  of encodable entries, with the content that the same list written by \<open>StoreLog\<close> leaves.
\<close>

theorem store_logs_is_store_log:
  assumes "raft_store B content tview tbase mp" "\<forall>l \<in> set logs. \<exists>b. encodeMsgPack mp l = Inr b"
  shows "\<exists>db'. StoreLogs B mp logs db = Some (None, db') \<and>
    content db' = content (fold (\<lambda>l d. snd (StoreLog B mp l d)) logs db)"
  by (rule raft_store.StoreLogs_is_fold [OF assms])

abbreviation tiny_db :: memdb where
  "tiny_db \<equiv> \<lparr>entries = [], txnLimit = 0\<rparr>"

theorem store_logs_is_store_log_witness:
  "\<exists>db'. StoreLogs mem_badger pair_codec [(1, ''a''), (2, ''b''), (1, ''c'')] tiny_db = Some (None, db') \<and>
     mem_content db' = mem_content (fold (\<lambda>l d. snd (StoreLog mem_badger pair_codec l d)) [(1, ''a''), (2, ''b''), (1, ''c'')] tiny_db)"
  by (rule store_logs_is_store_log [OF mem.raft_store_axioms]) (simp add: codec_defs)

text \<open>
  C8. Entries are read back: after \<open>StoreLogs\<close> of encodable entries with distinct indices, \<open>GetLog\<close> returns each of
  them under its index, and at every other index what it returned before.
\<close>

theorem logs_read_back:
  assumes "raft_store B content tview tbase mp" "\<forall>l \<in> set logs. \<exists>b. encodeMsgPack mp l = Inr b"
    and "distinct (map (logIndex mp) logs)"
  shows "\<exists>db'. StoreLogs B mp logs db = Some (None, db') \<and>
    (\<forall>l \<in> set logs. \<forall>l0. GetLog B mp db' (logIndex mp l) l0 = (None, l)) \<and>
    (\<forall>i l0. i \<notin> logIndex mp ` set logs \<longrightarrow> GetLog B mp db' i l0 = GetLog B mp db i l0)"
  by (rule raft_store.logs_bulk_get [OF assms])

theorem logs_read_back_witness:
  "\<exists>db'. StoreLogs mem_badger pair_codec [(1, ''a''), (2, ''b'')] tiny_db = Some (None, db') \<and>
     GetLog mem_badger pair_codec db' 2 (0, []) = (None, (2, ''b'')) \<and>
     GetLog mem_badger pair_codec db' 3 (0, []) = GetLog mem_badger pair_codec tiny_db 3 (0, [])"
proof -
  have i: "logIndex pair_codec = fst" by (simp add: codec_defs)
  from logs_read_back [OF mem.raft_store_axioms, of "[(1, ''a''), (2, ''b'')]" tiny_db] show ?thesis
    by (auto simp: i codec_defs)
qed

text \<open>
  C9. A failing \<open>StoreLogs\<close> leaves a prefix: whatever faults the database and the coder show, when \<open>StoreLogs\<close> returns,
  the content is the old one with the first entries written in order, all of them if there was no error.
\<close>

theorem store_logs_prefix:
  assumes "badger_laws B content tview tbase" "StoreLogs B mp logs db = Some (err, db')"
  shows "\<exists>pre rest. logs = pre @ rest \<and> content db' = put_logs mp pre (content db) \<and> (err = None \<longrightarrow> rest = [])"
  using badger_laws.StoreLogs_content [OF assms] by (simp add: prefix_stored_def)

text \<open>Message pack for entries below index 2 only.\<close>

definition picky_codec :: "(uint64 \<times> bytes) msgpack" where
  "picky_codec = pair_codec\<lparr>encoderEncode := (\<lambda>l. if fst l < 2 then (snd l, None) else ([], Some EOF))\<rparr>"

theorem store_logs_prefix_witness:
  "\<exists>db'. StoreLogs mem_badger picky_codec [(0, ''a''), (1, ''b''), (2, ''c'')] tiny_db = Some (Some EOF, db') \<and>
     (\<exists>pre rest. [(0, ''a''), (1, ''b''), (2, ''c'')] = pre @ rest \<and> mem_content db' = put_logs picky_codec pre (mem_content tiny_db))"
proof -
  obtain db' where r: "StoreLogs mem_badger picky_codec [(0, ''a''), (1, ''b''), (2, ''c'')] tiny_db = Some (Some EOF, db')"
    by (simp add: StoreLogs.simps mem_badger_def mem_write_def picky_codec_def codec_defs)
  from store_logs_prefix [OF mem.badger_laws_axioms r] r show ?thesis by blast
qed

text \<open>
  C6. \<open>DeleteRange(min, max)\<close> deletes exactly the entries of the range. On a database as raft fills it (log keys,
  configuration keys of more than eight bytes, no entry 0), where no entry lies below the range or the library never
  refuses a deletion as too big, whatever else fails: an entry outside the range and every configuration value keeps
  its value, and if there is no error, no entry of the range is left.
\<close>

theorem delete_range_exact:
  assumes "badger_laws B content tview tbase" "raft_keys (content db)"
    and "restart_safe lo (content db) \<or> (\<forall>t. fst (txnDelete B t (logkey 0)) \<noteq> Some ErrTxnTooBig)"
    and "DeleteRange B lo hi db = Some (err, db')"
  shows "(\<forall>i. \<not> (lo \<le> i \<and> i \<le> hi) \<longrightarrow> content db' (logkey i) = content db (logkey i)) \<and>
    (\<forall>c. content db' (confkey c) = content db (confkey c)) \<and>
    (err = None \<longrightarrow> (\<forall>i. lo \<le> i \<and> i \<le> hi \<longrightarrow> content db' (logkey i) = None))"
proof -
  have "badger_laws.delete_safe B content lo db"
    using assms(2,3) by (simp add: badger_laws.delete_safe_def [OF assms(1)])
  from badger_laws.DeleteRange_content [OF assms(1,4) this]
  have rd: "range_deleted lo hi (content db) err (content db')" by simp
  then have keep: "content db' k = content db k" if "\<nexists>i. k = logkey i \<and> lo \<le> i \<and> i \<le> hi" for k
    using that unfolding range_deleted_def by blast
  have "content db' (logkey i) = content db (logkey i)" if "\<not> (lo \<le> i \<and> i \<le> hi)" for i
    by (rule keep) (use that in auto)
  moreover have "content db' (confkey c) = content db (confkey c)" for c by (rule keep) simp
  moreover have "content db' (logkey i) = None" if "err = None" "lo \<le> i" "i \<le> hi" for i
    using rd that by (auto simp: range_deleted_def drop_logs_def)
  ultimately show ?thesis by blast
qed

abbreviation small_db :: memdb where
  "small_db \<equiv> \<lparr>entries = [(logkey 1, ''a''), (logkey 2, ''b''), (logkey 3, ''c''), (confkey ''CurrentTerm'', ''t'')], txnLimit = 0\<rparr>"

lemma mem_ops:
  "dbErr mem_badger db = None"
  "NewTransaction mem_badger db = \<lparr>mBase = entries db, mCur = entries db, mWrites = 0, mLimit = txnLimit db\<rparr>"
  "txnDelete mem_badger t k = mem_write (AList.delete k) t"
  "txnCommit mem_badger db t = (None, db\<lparr>entries := mCur t\<rparr>)"
  "txnSeek mem_badger t False k = filter (\<lambda>x. k \<le> x) (sort (remdups (map fst (mCur t))))"
  by (simp_all add: mem_badger_def)

lemma logkey_confkey_le [simp]: "logkey i \<le> confkey c" "\<not> confkey c \<le> logkey i"
  by (simp_all add: less_imp_le not_le)

theorem delete_range_exact_witness:
  "\<exists>db'. DeleteRange mem_badger 1 2 small_db = Some (None, db') \<and>
     mem_content db' (logkey 1) = None \<and> mem_content db' (logkey 2) = None \<and> mem_content db' (logkey 3) = Some ''c'' \<and>
     mem_content db' (confkey ''CurrentTerm'') = Some ''t''"
proof -
  obtain db' where r: "DeleteRange mem_badger 1 2 small_db = Some (None, db')"
    by (simp add: DeleteRange.simps mem_ops mem_write_def)
  have m: "mem_content small_db = [logkey 1 \<mapsto> ''a'', logkey 2 \<mapsto> ''b'', logkey 3 \<mapsto> ''c'', confkey ''CurrentTerm'' \<mapsto> ''t'']"
    by (simp add: mem_content_def fun_eq_iff)
  have k: "raft_keys (mem_content small_db)" "restart_safe 1 (mem_content small_db)"
    unfolding m by (auto simp: raft_keys_def store_keys_def restart_safe_def split: if_splits)
  from delete_range_exact [OF mem.badger_laws_axioms k(1) disjI1 [OF k(2)] r]
  have "mem_content db' (logkey 1) = None \<and> mem_content db' (logkey 2) = None \<and>
      mem_content db' (logkey 3) = mem_content small_db (logkey 3) \<and>
      mem_content db' (confkey ''CurrentTerm'') = mem_content small_db (confkey ''CurrentTerm'')" by simp
  with r m show ?thesis by simp
qed

text \<open>
  \<open>DeleteRange\<close> does not check the prefix of the keys it meets: a configuration key of eight bytes whose bytes read as
  a number up to the end of the range is deleted with the entries, here the only value of the store.
\<close>

theorem delete_range_takes_conf_key:
  assumes "length c = 8" "bytesToUint64 c = Ret i" "i \<le> hi"
  shows "DeleteRange mem_badger lo hi \<lparr>entries = [(confkey c, v)], txnLimit = n\<rparr> =
    Some (None, \<lparr>entries = [], txnLimit = n\<rparr>)"
proof -
  have "KeyCopy9 (confkey c) = confkey c" "key_index (confkey c) = i"
    using assms(1,2) by (simp_all add: KeyCopy9_def confkey_def prefixConf_def key_index_def)
  with assms(3) show ?thesis by (subst DeleteRange.simps) (simp add: mem_ops mem_write_def Let_def)
qed

theorem delete_range_takes_conf_key_witness:
  "DeleteRange mem_badger 5 9 \<lparr>entries = [(confkey (uint64ToBytes 7), ''t'')], txnLimit = 10\<rparr> =
     Some (None, \<lparr>entries = [], txnLimit = 10\<rparr>)"
  by (rule delete_range_takes_conf_key [where i = 7])
    (use bytesToUint64_uint64ToBytes [of 7 "[]"] in simp_all)

text \<open>
  C20. The bounds of the log: in a store that holds log and configuration keys, \<open>FirstIndex\<close> is the smallest stored index
  and \<open>LastIndex\<close> the largest below \<open>2^64 - 256\<close>, and 0 where there is none. The last 256 indices are invisible to
  \<open>LastIndex\<close>, because the key it seeks from is one byte short.
\<close>

theorem log_bounds:
  assumes "badger_healthy B content tview tbase" "store_keys (content db)"
  shows "FirstIndex B db = Ret (Inr (if log_indices (content db) = {} then 0 else Min (log_indices (content db)))) \<and>
    LastIndex B db = Ret (Inr (let I = {i \<in> log_indices (content db). unat i < 2 ^ 64 - 256} in if I = {} then 0 else Max I))"
  using badger_healthy.FirstIndex_Min [OF assms] badger_healthy.LastIndex_Max [OF assms] by blast

theorem log_bounds_witness:
  "FirstIndex mem_badger \<lparr>entries = [(logkey 3, ''c''), (logkey (- 1), ''z'')], txnLimit = 0\<rparr> = Ret (Inr 3) \<and>
   LastIndex mem_badger \<lparr>entries = [(logkey 3, ''c''), (logkey (- 1), ''z'')], txnLimit = 0\<rparr> = Ret (Inr 3)"
proof -
  let ?db = "\<lparr>entries = [(logkey 3, ''c''), (logkey (- 1), ''z'')], txnLimit = 0\<rparr>"
  have m: "mem_content ?db = [logkey 3 \<mapsto> ''c'', logkey (- 1) \<mapsto> ''z'']" by (simp add: mem_content_def fun_eq_iff)
  have I: "log_indices (mem_content ?db) = {3, - 1}" unfolding m by (auto simp: log_indices_def)
  have J: "{i \<in> {3, - 1 :: uint64}. unat i < 2 ^ 64 - 256} = {3}" by (auto simp: unsigned_minus_1_eq_mask mask_eq_exp_minus_1)
  have k: "store_keys (mem_content ?db)" unfolding m by (auto simp: store_keys_def split: if_splits)
  have min: "min 3 (- 1 :: uint64) = 3" by (simp add: min_def)
  from log_bounds [OF mem.badger_healthy_axioms k] show ?thesis unfolding I J by (simp add: min)
qed

text \<open>
  C21. The stable store: \<open>Set\<close> succeeds, \<open>Get\<close> then returns the value, other keys and the whole log are as before, and a
  key never set gives \<open>ErrKeyNotFound\<close>. \<open>SetUint64\<close> and \<open>GetUint64\<close> carry every 64-bit number.
\<close>

theorem stable_store:
  assumes "badger_healthy B content tview tbase"
  shows "(\<exists>db'. Store_Set B k v db = (None, db') \<and> Store_Get B k db' = Inr v \<and>
      (\<forall>k'. k' \<noteq> k \<longrightarrow> Store_Get B k' db' = Store_Get B k' db) \<and>
      (\<forall>i. content db' (logkey i) = content db (logkey i))) \<and>
    (\<exists>db'. SetUint64 B k u db = (None, db') \<and> GetUint64 B k db' = Ret (Inr u)) \<and>
    (content db (confkey k) = None \<longrightarrow> Store_Get B k db = Inl ErrKeyNotFound \<and> GetUint64 B k db = Ret (Inl ErrKeyNotFound))"
proof (intro conjI)
  note set = badger_healthy.Store_Set_content [OF assms] and get = badger_healthy.Store_Get_content [OF assms]
  show "\<exists>db'. Store_Set B k v db = (None, db') \<and> Store_Get B k db' = Inr v \<and>
      (\<forall>k'. k' \<noteq> k \<longrightarrow> Store_Get B k' db' = Store_Get B k' db) \<and> (\<forall>i. content db' (logkey i) = content db (logkey i))"
    using set [of k v db] by (auto simp: get)
  show "\<exists>db'. SetUint64 B k u db = (None, db') \<and> GetUint64 B k db' = Ret (Inr u)"
    using set [of k "uint64ToBytes u" db] bytesToUint64_uint64ToBytes [of u "[]"]
    by (auto simp: SetUint64_def GetUint64_def get)
  show "content db (confkey k) = None \<longrightarrow> Store_Get B k db = Inl ErrKeyNotFound \<and> GetUint64 B k db = Ret (Inl ErrKeyNotFound)"
    by (simp add: get GetUint64_def)
qed

theorem stable_store_witness:
  "(\<exists>db'. Store_Set mem_badger ''k'' ''v'' tiny_db = (None, db') \<and> Store_Get mem_badger ''k'' db' = Inr ''v'') \<and>
   (\<exists>db'. SetUint64 mem_badger ''k'' 7 tiny_db = (None, db') \<and> GetUint64 mem_badger ''k'' db' = Ret (Inr 7)) \<and>
   Store_Get mem_badger ''k'' tiny_db = Inl ErrKeyNotFound"
  using stable_store [OF mem.badger_healthy_axioms, of "''k''" "''v''" tiny_db 7] by (auto simp: mem_content_def)

subsection \<open>Every reachable store\<close>

text \<open>The calls that change the store, whatever they return.\<close>

inductive store_step :: "('db, 't) badger \<Rightarrow> 'log msgpack \<Rightarrow> 'db \<Rightarrow> 'db \<Rightarrow> bool" for B mp where
  store_log: "StoreLog B mp l db = (err, db') \<Longrightarrow> store_step B mp db db'"
| store_logs: "StoreLogs B mp ls db = Some (err, db') \<Longrightarrow> store_step B mp db db'"
| delete_range: "DeleteRange B lo hi db = Some (err, db') \<Longrightarrow> store_step B mp db db'"
| set_conf: "Store_Set B k v db = (err, db') \<Longrightarrow> store_step B mp db db'"
| set_uint64: "SetUint64 B k u db = (err, db') \<Longrightarrow> store_step B mp db db'"

inductive_cases store_stepE: "store_step B mp db db'"

lemma store_keys_mono: "store_keys m \<Longrightarrow> m' \<subseteq>\<^sub>m m \<Longrightarrow> store_keys m'"
  unfolding store_keys_def using map_le_implies_dom_le by blast

context badger_laws
begin

lemma DeleteRange_shrinks:
  assumes "DeleteRange B lo hi db = Some r"
  shows "content (snd r) \<subseteq>\<^sub>m content db"
proof -
  let ?P = "\<lambda>B' lo hi db r. B' = B \<longrightarrow> content (snd r) \<subseteq>\<^sub>m content db"
  have "?P B lo hi db r"
  proof (rule DeleteRange.raw_induct [of ?P, OF _ assms], intro impI, goal_cases)
    case (1 f B' lo hi db r)
    let ?t = "NewTransaction B db"
    let ?ks = "txnSeek B ?t False (logkey lo)"
    note step = 1(2) [unfolded 1(3) Let_def]
    have commit: "content db1 \<subseteq>\<^sub>m content db" if "txnCommit B db t = (e, db1)" "tview t = taken ks (content db)" "tbase t = content db"
      for t e db1 ks
      using that commit_ok [of t db db1] commit_err [of db t _ db1] by (cases e) (auto simp: map_le_def restrict_map_def)
    note view = delete_batch_view [where hi = hi and ks = ?ks and t = ?t, unfolded begin_view begin_base]
    show ?case
    proof (cases "delete_batch B hi ?ks ?t")
      case (Filled t')
      then show ?thesis using view step commit [of t' "fst r" "snd r"] by (cases r) simp
    next
      case (Full t' i)
      then obtain ks1 where t': "tview t' = taken ks1 (content db)" "tbase t' = content db" using view by auto
      obtain e db1 where db1: "txnCommit B db t' = (e, db1)" by fastforce
      have le: "content db1 \<subseteq>\<^sub>m content db" by (rule commit [OF db1 t'])
      show ?thesis
      proof (cases e)
        case None
        then have "f B i hi db1 = Some r" using step Full db1 by simp
        with 1(1) le show ?thesis by (blast intro: map_le_trans)
      qed (use step Full db1 le in auto)
    next
      case (Failed e)
      then show ?thesis using step by (auto simp: map_le_def)
    qed
  qed
  then show ?thesis by simp
qed

lemma Store_Set_keys:
  assumes "Store_Set B k v db = (err, db')" "store_keys (content db)"
  shows "store_keys (content db')"
proof -
  have "if err = None then \<exists>t'. txnSet B (NewTransaction B db) (confkey k) v = (None, t') \<and> content db' = tview t'
      else content db' = content db"
  proof (rule Update_cases [OF assms(1) [unfolded Store_Set_def]])
    fix t e t' assume "tbase t = content db" "txnSet B t (confkey k) v = (e, t')"
    then show "tbase t' = content db" using set_ok set_err by (cases e) auto
  qed
  then have "content db' = content db \<or> content db' = (content db)(confkey k \<mapsto> v)"
    using set_ok begin_view by (auto split: if_splits)
  with assms(2) show ?thesis by (auto simp: store_keys_def)
qed

lemma store_step_keys: "store_step B mp db db' \<Longrightarrow> store_keys (content db) \<Longrightarrow> store_keys (content db')"
proof (induction rule: store_step.induct)
  case (store_log l db err db')
  then show ?case
    using StoreLog_content(1) [OF store_log(1)] store_keys_put_logs [of "content db" mp "[l]"] by auto
next
  case (store_logs ls db err db')
  then show ?case
    using StoreLogs_content [OF store_logs(1)] store_keys_put_logs by (auto simp: prefix_stored_def)
next
  case (delete_range lo hi db err db')
  then show ?case using DeleteRange_shrinks [OF delete_range(1)] store_keys_mono by auto
next
  case (set_conf k v db err db')
  then show ?case by (rule Store_Set_keys)
next
  case (set_uint64 k u db err db')
  then show ?case using Store_Set_keys by (simp add: SetUint64_def)
qed

lemma index_no_panic:
  assumes "store_keys (content db)" "set it \<subseteq> dom (content db)"
  shows "\<exists>i. (if ValidForPrefix prefixLogs it then bytesToUint64 (drop 1 (hd it)) else Ret 0) = Ret i"
proof (cases it)
  case (Cons k ks)
  then have "k \<in> dom (content db)" using assms(2) by simp
  with assms(1) show ?thesis by (cases rule: store_keys_cases) (simp_all add: Cons)
qed simp

lemma indices_no_panic:
  assumes "store_keys (content db)"
  shows "\<exists>r. FirstIndex B db = Ret r" and "\<exists>r. LastIndex B db = Ret r"
proof -
  have "set (txnSeek B (NewTransaction B db) rv k) \<subseteq> dom (content db)" for rv k
    by (cases rv) (auto simp: seek_up_begin seek_down_begin finite_content)
  note no = index_no_panic [OF assms this]
  obtain i where i: "(if ValidForPrefix prefixLogs (txnSeek B (NewTransaction B db) False prefixLogs)
      then bytesToUint64 (drop 1 (hd (txnSeek B (NewTransaction B db) False prefixLogs))) else Ret 0) = Ret i"
    using no by blast
  show "\<exists>r. FirstIndex B db = Ret r"
    unfolding FirstIndex_def View_def index_result_def Let_def i by (cases "dbErr B db") simp_all
  obtain j where j: "(if ValidForPrefix prefixLogs (txnSeek B (NewTransaction B db) True (prefixLogs @ replicate 7 CHR 0xFF))
      then bytesToUint64 (drop 1 (hd (txnSeek B (NewTransaction B db) True (prefixLogs @ replicate 7 CHR 0xFF)))) else Ret 0) = Ret j"
    using no by blast
  show "\<exists>r. LastIndex B db = Ret r"
    unfolding LastIndex_def View_def index_result_def Let_def j by (cases "dbErr B db") simp_all
qed

end

text \<open>
  C7. Every store reached from an empty one by any sequence of calls, failing ones included, holds only nine-byte log
  keys and configuration keys; so \<open>FirstIndex\<close> and \<open>LastIndex\<close> never panic on the keys they meet.
\<close>

theorem store_keys_invariant:
  assumes "badger_laws B content tview tbase" "content db0 = Map.empty" "(store_step B mp)\<^sup>*\<^sup>* db0 db"
  shows "store_keys (content db) \<and> (\<exists>r. FirstIndex B db = Ret r) \<and> (\<exists>r. LastIndex B db = Ret r)"
proof -
  have "store_keys (content db)" using assms(3)
  proof (induction rule: rtranclp_induct)
    case base
    then show ?case using assms(2) by (simp add: store_keys_def)
  next
    case (step y z)
    then show ?case using badger_laws.store_step_keys [OF assms(1)] by blast
  qed
  then show ?thesis using badger_laws.indices_no_panic [OF assms(1)] by blast
qed

theorem store_keys_invariant_witness:
  "\<exists>db. (store_step mem_badger pair_codec)\<^sup>*\<^sup>* tiny_db db \<and> mem_content db (logkey 4) = Some (uint64ToBytes 4 @ ''x'') \<and>
     store_keys (mem_content db) \<and> (\<exists>r. FirstIndex mem_badger db = Ret r)"
proof -
  let ?db = "\<lparr>entries = [(logkey 4, uint64ToBytes 4 @ ''x'')], txnLimit = 0\<rparr>"
  have "StoreLog mem_badger pair_codec (4, ''x'') tiny_db = (None, ?db)"
    by (simp add: StoreLog_def Update_def mem_badger_def mem_write_def codec_defs)
  then have r: "(store_step mem_badger pair_codec)\<^sup>*\<^sup>* tiny_db ?db" by (blast intro: store_step.store_log)
  have e: "mem_content tiny_db = Map.empty" by (simp add: mem_content_def)
  have c: "mem_content ?db (logkey 4) = Some (uint64ToBytes 4 @ ''x'')" by (simp add: mem_content_def)
  from store_keys_invariant [OF mem.badger_laws_axioms e r] r c show ?thesis by blast
qed

end
