(* ===== verification/Message_String.thy ===== *)
theory Message_String
  imports Wire Decoder Go_Strings
begin

text \<open>
  \<^verbatim>\<open>protocol/message/message.go\<close>, \<open>String\<close> and \<open>string\<close>: the text of a message in log lines.

  The text of a float under \<^verbatim>\<open>%v\<close> is that of \<open>strconv.FormatFloat\<close> with format \<^verbatim>\<open>'g'\<close> and the shortest digits: with an
  exponent if that is below -4 or at least 6, and otherwise as \<open>FormatFloat\<close> writes it. The texts of errors of libraries and
  of formatted errors are the parameter \<open>ext\<close>.
\<close>

subsection \<open>Texts of floats, errors and kinds\<close>

text \<open>The exponent has a sign and at least two digits.\<close>

definition format_e :: "nat \<times> int \<Rightarrow> string" where
  "format_e tk =
     (let (t, k) = tk; ds = nat_string t; ex = int (length ds) - 1 + k
      in hd ds # (if tl ds = [] then [] else CHR ''.'' # tl ds) @ ''e'' @
         (if ex < 0 then ''-'' else ''+'') @ pad_zeros 2 (nat_string (nat \<bar>ex\<bar>)))"

definition format_g :: "nat \<times> int \<Rightarrow> string" where
  "format_g tk =
     (let (t, k) = tk; ex = int (length (nat_string t)) - 1 + k
      in if ex < -4 \<or> 6 \<le> ex then format_e tk else format_f tk)"

definition FormatG :: "float64 \<Rightarrow> string" where
  "FormatG w =
     (if f_isNaN w then ''NaN''
      else if f_isInf w then (if f_neg w then ''-Inf'' else ''+Inf'')
      else (if f_neg w then ''-'' else '''') @
           (if f_mag w = 0 then ''0'' else format_g (shortest (f_mag w))))"

definition Error_text :: "(error \<Rightarrow> string) \<Rightarrow> error \<Rightarrow> string" where
  "Error_text ext e =
     (case e of
        New s \<Rightarrow> s
      | EOF \<Rightarrow> ''EOF''
      | ErrUnexpectedEOF \<Rightarrow> ''unexpected EOF''
      | ErrShortWrite \<Rightarrow> ''short write''
      | ErrInvalidCommand \<Rightarrow> ''invalid command''
      | ErrNotImplemented \<Rightarrow> ''not implemented''
      | ErrCanceled \<Rightarrow> ''context canceled''
      | _ \<Rightarrow> ext e)"

text \<open>A byte converted to a string is the character with that number, in UTF-8.\<close>

definition byte_string :: "char \<Rightarrow> string" where
  "byte_string c =
     (let n = of_char c :: nat in
      if n < 128 then [c] else [char_of (192 + n div 64), char_of (128 + n mod 64)])"

subsection \<open>Texts of messages\<close>

definition unknown_text :: "Kind \<Rightarrow> string" where
  "unknown_text k = ''Unknown '' @ Kind_String k"

text \<open>
  The element texts of a lazily decoded sequence. What the decoder yields is \<open>Message{}\<close> (\<open>Iterate_single\<close>), a kind without
  a case of its own.
\<close>

definition yielded_text :: "(error \<Rightarrow> string) \<Rightarrow> message \<times> error option \<Rightarrow> string" where
  "yielded_text ext x =
     (case snd x of
        None \<Rightarrow> byte_string (msgKind (fst x)) @ unknown_text (msgKind (fst x))
      | Some e \<Rightarrow> ''!ERR:'' @ Error_text ext e)"

definition yielded_pair_text :: "(error \<Rightarrow> string) \<Rightarrow> (message \<times> message) \<times> error option \<Rightarrow> string" where
  "yielded_pair_text ext x =
     (case x of
        ((k, v), None) \<Rightarrow> yielded_text ext (k, None) @ '': '' @ yielded_text ext (v, None)
      | (_, Some e) \<Rightarrow> ''!ERR:'' @ Error_text ext e)"

fun Message_String :: "(error \<Rightarrow> string) \<Rightarrow> message \<Rightarrow> heap \<Rightarrow> (string \<times> heap) go"
  and strings :: "(error \<Rightarrow> string) \<Rightarrow> message list \<Rightarrow> heap \<Rightarrow> (string list \<times> heap) go"
  and pair_strings :: "(error \<Rightarrow> string) \<Rightarrow> message list \<Rightarrow> heap \<Rightarrow> (string list \<times> heap) go" where
  "Message_String ext (Message k ss er i b d bn tms rl rd enc sq as) h =
     go_bind
       (if k = kSimpleString then Ret (ss, h)
        else if k = kError then
          (case er of None \<Rightarrow> Panic ''nil pointer dereference'' | Some e \<Rightarrow> Ret (Error_text ext e, h))
        else if k = kInt then Ret (FormatInt i, h)
        else if k = kArray then
          (case sq of
             NilSeq \<Rightarrow> Panic ''nil pointer dereference''
           | SliceSeq ms \<Rightarrow> go_bind (strings ext ms h) (\<lambda>(s, h'). Ret (Join s '' '', h'))
           | IterateSeq r \<Rightarrow> (let (xs, h') = Iterate r h in Ret (Join (map (yielded_text ext) xs) '' '', h')))
        else if k = kMap then
          (case as of
             NilAssoc \<Rightarrow> Panic ''nil pointer dereference''
           | PairsAssoc kvs \<Rightarrow> go_bind (pair_strings ext kvs h) (\<lambda>(s, h'). Ret (''{'' @ Join s '' '' @ ''}'', h'))
           | ChunkAssoc r \<Rightarrow>
               (let (xs, h') = Iterate r h in Ret (''{'' @ Join (map (yielded_pair_text ext) (chunk xs)) '' '' @ ''}'', h')))
        else if k = kBool then Ret (FormatBool b, h)
        else if k = kDouble then Ret (FormatG d, h)
        else if k = kBigNumber then Ret (BigInt_String bn, h)
        else if k = kVerbatimString then Ret (ss, h)
        else Ret (unknown_text k, h))
       (\<lambda>(s, h'). Ret (byte_string k @ s, h'))"
| "strings ext [] h = Ret ([], h)"
| "strings ext (m # ms) h =
     go_bind (Message_String ext m h) (\<lambda>(s, h1). go_bind (strings ext ms h1) (\<lambda>(ss, h2). Ret (s # ss, h2)))"
| "pair_strings ext [] h = Ret ([], h)"
| "pair_strings ext [k] h = Panic ''index out of range''"
| "pair_strings ext (k # v # kvs) h =
     go_bind (Message_String ext k h) (\<lambda>(s, h1). go_bind (Message_String ext v h1) (\<lambda>(t, h2).
       go_bind (pair_strings ext kvs h2) (\<lambda>(ss, h3). Ret ((s @ '': '' @ t) # ss, h3))))"

subsection \<open>The text of a value\<close>

fun show_resp :: "resp \<Rightarrow> string"
  and show_pairs :: "resp list \<Rightarrow> string list" where
  "show_resp (RSimple s) = ''+'' @ s"
| "show_resp (RInt i) = '':'' @ FormatInt i"
| "show_resp RNull = ''_Unknown Null''"
| "show_resp (RBool b) = ''#'' @ FormatBool b"
| "show_resp (RDouble f) = '','' @ FormatG f"
| "show_resp (RBig i) = ''('' @ FormatInt i"
| "show_resp (RBulk s) = ''$Unknown Bulk''"
| "show_resp (RBulkError s) = ''!Unknown Unknown''"
| "show_resp (RVerbatim enc s) = ''=''"
| "show_resp (RArray vs) = ''*'' @ Join (map show_resp vs) '' ''"
| "show_resp (RSet vs) = ''~Unknown Set''"
| "show_resp (RMap kvs) = ''%{'' @ Join (show_pairs kvs) '' '' @ ''}''"
| "show_pairs [] = []"
| "show_pairs [v] = []"
| "show_pairs (k # v # kvs) = (show_resp k @ '': '' @ show_resp v) # show_pairs kvs"

definition shown :: "(error \<Rightarrow> string) \<Rightarrow> resp \<Rightarrow> message \<Rightarrow> bool" where
  "shown ext v m \<longleftrightarrow> (\<forall>h. Message_String ext m h = Ret (show_resp v, h))"

lemma shown_strings: "list_all2 (shown ext) vs ms \<Longrightarrow> strings ext ms h = Ret (map show_resp vs, h)"
  by (induction rule: list_all2_induct) (auto simp: shown_def)

lemma shown_pairs: "list_all2 (shown ext) vs ms \<Longrightarrow> even (length ms) \<Longrightarrow> pair_strings ext ms h = Ret (show_pairs vs, h)"
  by (induction vs arbitrary: ms rule: induct_list012) (auto simp: list_all2_Cons1 shown_def)

lemmas text_defs = kind_defs byte_string_def unknown_text_def Kind_String_def Humanize_def BigInt_String_def

lemma repr_shown_both:
  "repr h v m a b \<Longrightarrow> shown ext v m"
  "reprs h vs ms a b \<Longrightarrow> list_all2 (shown ext) vs ms"
proof (induction rule: repr_reprs.inducts)
  case (repr_array h vs ms a b)
  then show ?case
    by (simp add: shown_def [of ext "RArray vs"] Array_def text_defs shown_strings)
next
  case (repr_map h kvs ms a b m)
  then have "even (length ms)" by (auto simp: Map_def split: if_splits)
  with repr_map show ?case
    by (auto simp: shown_def [of ext "RMap kvs"] Map_def text_defs shown_pairs split: if_splits)
qed (simp_all add: shown_def message_defs text_defs)

text \<open>
  C17. The text of a message that stands for a RESP value is a function of the value: \<open>String\<close> returns, on every heap, the
  text \<open>show_resp\<close> gives, with the elements of arrays and maps in order, and moves no reader, so logging a message does not
  use it up. The payload of a bulk string is not part of the text.
\<close>

theorem string_refines_show:
  assumes "repr h v m a b"
  shows "Message_String ext m h' = Ret (show_resp v, h')"
  using repr_shown_both(1) [OF assms] unfolding shown_def by blast

theorem string_refines_show_witness:
  "case NewOutgoingCommand [''GET'', ''k''] empty_heap of (m, h) \<Rightarrow>
     Message_String (\<lambda>e. []) m h = Ret (''*$Unknown Bulk $Unknown Bulk'', h)"
proof -
  obtain m h where m: "NewOutgoingCommand [''GET'', ''k''] empty_heap = (m, h)" by fastforce
  from string_refines_show [OF NewOutgoingCommand_repr [OF m], of "\<lambda>e. []" h] m show ?thesis by simp
qed

end
