(* ===== verification/Seq_Cache.thy ===== *)
theory Seq_Cache
  imports Main
begin

text \<open>
  \<^verbatim>\<open>protocol/message/seq.go\<close>: \<open>CachedSeq2\<close>, a sequence that records the pairs it hands out.

  A sequence of pairs is the list of what it yields; a consumer is a function of a pair and the consumer's state that
  tells whether to go on. \<open>range\<close> over a sequence calls the consumer until it stops or the sequence ends.
\<close>

type_synonym ('k, 'v, 's) consumer = "'k \<times> 'v \<Rightarrow> 's \<Rightarrow> bool \<times> 's"

fun range_seq :: "('k \<times> 'v) list \<Rightarrow> ('k, 'v, 's) consumer \<Rightarrow> 's \<Rightarrow> 's" where
  "range_seq [] yield s = s"
| "range_seq (kv # kvs) yield s = (case yield kv s of (True, s') \<Rightarrow> range_seq kvs yield s' | (False, s') \<Rightarrow> s')"

text \<open>The variables the closure keeps between its calls.\<close>

record ('k, 'v) cache =
  pairs :: "('k \<times> 'v) list"
  index :: nat

definition CachedSeq2 :: "('k \<times> 'v) list \<Rightarrow> ('k, 'v, 's) consumer \<Rightarrow> ('k, 'v) cache \<times> 's \<Rightarrow> ('k, 'v) cache \<times> 's" where
  "CachedSeq2 sq yield =
     range_seq sq (\<lambda>kv (c, s).
       let c' = c\<lparr>index := index c + 1, pairs := pairs c @ [kv]\<rparr>; (ok, s') = yield kv s
       in (ok, (c', s')))"

text \<open>How many pairs a consumer takes.\<close>

fun taken :: "('k \<times> 'v) list \<Rightarrow> ('k, 'v, 's) consumer \<Rightarrow> 's \<Rightarrow> nat" where
  "taken [] yield s = 0"
| "taken (kv # kvs) yield s = (case yield kv s of (True, s') \<Rightarrow> Suc (taken kvs yield s') | (False, s') \<Rightarrow> 1)"

lemma cached_range:
  "CachedSeq2 sq yield (c, s) =
     (c\<lparr>index := index c + taken sq yield s, pairs := pairs c @ take (taken sq yield s) sq\<rparr>, range_seq sq yield s)"
  unfolding CachedSeq2_def
  by (induction sq arbitrary: c s) (auto simp: Let_def split: prod.split bool.split)

text \<open>
  A cached sequence is transparent and does not cache: iterating it calls the consumer exactly as iterating the sequence
  itself does and leaves the same result, also when the consumer stops early and whatever earlier iterations recorded. Each
  iteration runs the sequence again and appends what it handed out to the recorded pairs, which nothing reads.
\<close>

theorem cached_seq_transparent:
  "snd (CachedSeq2 sq yield (c, s)) = range_seq sq yield s \<and>
   pairs (fst (CachedSeq2 sq yield (c, s))) = pairs c @ take (taken sq yield s) sq \<and>
   index (fst (CachedSeq2 sq yield (c, s))) = index c + taken sq yield s \<and>
   snd (CachedSeq2 sq yield (fst (CachedSeq2 sq yield' (c, s')), s)) = range_seq sq yield s"
  unfolding cached_range by simp

end
