(* ===== verification/Spec2Isabelle.thy ===== *)
theory Spec2Isabelle
  imports Transact Server Conn_Wait Key_Wait Kafka Fsm Raft_Store Badger_Open Message_String Seq_Cache
begin

text \<open>
  Verification of anarchoredis, a proxy in front of a redis server that is meant to hold back the answer to a write until
  the write is in a distributed log.

  \<^bold>\<open>The program.\<close> A client talks RESP, the redis protocol, to the proxy. \<^verbatim>\<open>protocol/message\<close> encodes and decodes
  messages, \<^verbatim>\<open>protocol/commands.go\<close> reads commands and their keys off messages, and \<^verbatim>\<open>protocol/conn.go\<close> puts both
  behind a mutex. The transactor (\<^verbatim>\<open>anarchoredis/txn.go\<close>) forwards each request, locks the keys of a write in a local
  database (\<^verbatim>\<open>anarchoredis/localstate\<close>), waits until they are unlocked and answers. A subscriber to the server's
  replication stream (\<^verbatim>\<open>anarchoredis/replication\<close>) feeds every replicated command to the transactor, which appends it
  to a log and unlocks its keys. The log is a Kafka topic (\<^verbatim>\<open>kafka\<close>) or a raft cluster (\<^verbatim>\<open>raft\<close>), whose entries are
  stored in a Badger database and applied to redis through a connection pool. \<^verbatim>\<open>server\<close> accepts connections and
  \<^verbatim>\<open>valkey\<close> runs the redis server as a child process.

  \<^bold>\<open>How code becomes definitions.\<close> A function that may panic or block returns \<open>'a go\<close>, with the constructors \<open>Ret\<close>,
  \<open>Panic\<close> and \<open>Blocked\<close>; Go errors are the datatype \<open>error\<close>, with \<open>errors_Is\<close> following the chain of wrapped errors.
  Signed 64-bit integers are \<open>int\<close> with \<open>wrap64\<close> where they can overflow; raft indices are 64-bit words. Readers are
  shared between copies of a message, so they live in a heap and are named by addresses; a reader delivers its content in
  arbitrary chunks, and then its final error: except in \<open>Conn_Wait\<close>, what a connection will read has arrived and its stream
  ends. A writer takes a bounded or unbounded number of bytes. A mutex is a flag, and locking it while it is
  held blocks. Text of formatted errors keeps the format string and the wrapped errors, not the formatted values.

  \<^bold>\<open>Theories.\<close>
  \<^item> \<open>Go_Prelude\<close>: errors, outcomes, 64-bit integers, generic lemmas. \<open>Go_IO\<close>: readers, the heap, \<open>io.ReadFull\<close>,
    \<open>io.LimitReader\<close>, writers; the locales \<open>byte_source\<close> and \<open>byte_sink\<close> are the contracts of \<open>io.Reader\<close> and
    \<open>io.Writer\<close>. \<open>Strconv\<close>, \<open>Float64\<close>, \<open>Float64_Roundtrip\<close>, \<open>Go_Strings\<close>: what the sources use of \<open>strconv\<close>,
    \<open>strings\<close> and \<open>net\<close>, with \<open>ParseFloat\<close> undoing \<open>FormatFloat\<close>.
  \<^item> \<open>Kind\<close>: \<^verbatim>\<open>protocol/kind/kind.go\<close>. \<open>Message\<close>: \<^verbatim>\<open>protocol/message/message.go\<close>, \<^verbatim>\<open>protocol/new.go\<close> and
    \<^verbatim>\<open>protocol/error.go\<close>. \<open>Coder\<close>: every function of \<^verbatim>\<open>protocol/message/coder.go\<close>. \<open>Message_String\<close>: the text of messages in
    log lines. \<open>Seq_Cache\<close>: \<^verbatim>\<open>protocol/message/seq.go\<close>.
  \<^item> \<open>Wire\<close>: RESP values, their wire form, and \<open>repr\<close>, which says that a message on a heap stands for a value; the
    lemma \<open>repr_emits\<close> is the refinement of one \<open>Write\<close> by \<open>Encode\<close>. \<open>Decoder\<close>: what passes of the decoder do on
    encoded messages. \<open>Codec\<close>: the properties of the codec; the locale \<open>enc_closed\<close> carries a property of encoding
    steps to \<open>Encode\<close>. \<open>Message_Type\<close>: which fields a message of each kind needs. \<open>Heap_Frame\<close>: what decoding and encoding
    leave alone on the heap.
  \<^item> \<open>Commands\<close>: \<^verbatim>\<open>protocol/commands.go\<close>. \<open>Conn\<close>: \<^verbatim>\<open>protocol/conn.go\<close>, with the locale \<open>lock_guarded\<close> for its methods.
  \<^item> \<open>Badger\<close>: the interface of the database library, its documented laws as the locales \<open>badger_laws\<close> and
    \<open>badger_healthy\<close>, and an in-memory database that satisfies them. \<open>Key_Locker\<close>: \<^verbatim>\<open>localstate/keylocker.go\<close>, with
    \<open>badger_ttl\<close> for entries that expire.
  \<^item> \<open>Raft_Util\<close>, \<open>Badger_Store\<close>, \<open>Badger_Open\<close>: \<^verbatim>\<open>raft/util.go\<close> and \<^verbatim>\<open>raft/badger_store.go\<close>. \<open>Log_Store\<close> and
    \<open>Raft_Store\<close>: their effect on the abstract content of the database, in the locales \<open>log_store\<close> and \<open>raft_store\<close>.
    \<open>Fsm\<close>: \<^verbatim>\<open>raft/appender.go\<close>, with \<open>Open\<close> over the outcomes of the raft library.
  \<^item> \<open>Kafka\<close>: \<^verbatim>\<open>kafka/log.go\<close> and \<^verbatim>\<open>kafka/consumer.go\<close>. \<open>Transactor\<close>: \<^verbatim>\<open>anarchoredis/txn.go\<close>. \<open>Replication\<close>:
    \<^verbatim>\<open>anarchoredis/replication/replication.go\<close>. \<open>Server\<close>: \<^verbatim>\<open>server/server.go\<close>, \<^verbatim>\<open>server/config.go\<close>, \<^verbatim>\<open>valkey/valkey.go\<close>
    and \<^verbatim>\<open>main.go\<close>.
  \<^item> \<open>Transact\<close>: the function \<open>Transact\<close>, as the step relation \<open>transact_step\<close> over all interleavings of the proxy, the
    replication stream and the acknowledging goroutine; it opens with what is one step.
  \<^item> \<open>Conn_Wait\<close>: goroutines that enter and leave the methods of a connection whose peer may stay connected. When a method
    waits and whether it takes the mutex is read off its definition in \<open>Conn\<close>, and a method works on the connection as it
    found it, so that atomicity is a property of the methods and not of the steps. \<open>Key_Wait\<close>: \<open>AwaitUnlocked\<close> step by step
    beside goroutines that lock and unlock.

  \<^bold>\<open>What is shown.\<close>
  \<^item> Encoding a message writes exactly the wire form of the value it stands for, with the right count and error, on every
    writer and for every chunking; a pass of the decoder reads scalar and bulk messages back. \<open>Decode\<close> itself drops what
    the passes assemble and returns the empty message for every input. Encoding a message that has the fields its kind
    needs neither panics nor blocks. The text of a message is a function of its value and moves no reader.
  \<^item> The raft store behaves as a map from indices to entries: batches have the effect of single writes however often a
    transaction fills up, ranges are deleted exactly, entries are read back, failures leave a prefix, and every reachable
    store holds only log and configuration keys. The limits found are stated as such: the last 256 indices are invisible to
    \<open>LastIndex\<close>, and \<open>DeleteRange\<close> can reach configuration keys.
  \<^item> Methods of a connection exclude each other and free the lock; a round trip sends the wire form of its request and
    returns the outcome of decoding what is left of the stream; the
    handshake with the leader sends its three requests in order; the start signal is given once; the accept loop ends
    with the first failure; the consumer copies records in order; unlocking is atomic and exact.
  \<^item> Where the parts meet, their defects decide the outcome, and this is proved too: no command has a name, keys or the
    write flag; locks are written under a key no one reads, and awaited under a key no one writes; \<open>Append\<close> and both
    \<open>Apply\<close> deadlock on a mutex taken twice; so one pass of the proxy always ends with an error and no answer, no replicated
    command reaches the log, and the replication stream delivers nothing. Run side by side the goroutines do no more: in
    every interleaving the client, the transactor and the start signal stay as they were and no goroutine panics; and a
    proxy that has failed does not stop the stream \<open>Transact\<close> then waits for.
  \<^item> About waiting: the mutex makes the methods of a connection atomic, but a \<open>Read\<close> from a peer that stays connected and
    sends replies never returns and keeps every other call out; a waiter for keys is never released before the keys it
    found locked have been unlocked, but for keys that do not overlap with the lock prefix it is woken by no unlock, and for
    every key an unlock between its scan and its subscription is lost.

  \<^bold>\<open>Termination and bounds.\<close> Loops over readers recurse on the remaining read steps of the source, so they are total.
  \<open>StoreLogs\<close>, \<open>DeleteRange\<close> and the garbage collection repeat while a library call says so; they are partial functions
  with \<open>None\<close> for not returning, and that they return is proved for a healthy database (\<open>StoreLogs\<close>) and characterised
  exactly (\<open>runGC\<close>). Loops that run until a context ends take one list entry per check of the context; their
  properties hold for every list. No loop is cut off by fuel. \<open>proxy_alone\<close>, which only serves to compare steps with calls in
  a proof, takes a number of steps; ten are enough, as its equality with the whole call shows.

  \<^bold>\<open>Parameters.\<close> Code outside the repository is an argument: the Badger database and its subscription, the MessagePack
  codec, the Kafka client's outcomes, the raft library, the pool, the dialled connection, the argument parser and the process handle. Where
  the sources do not agree with each other the disputed part is an argument as well: message fields that the struct lacks
  (\<open>view\<close> in \<open>Replication\<close>), an index into an iterator (\<open>arg0\<close> in \<open>Transactor\<close>), a callback without a return
  statement (\<open>go_on\<close> in \<open>Commands\<close>), a function without one (\<open>fallen\<close> in \<open>Replication\<close>); and pointers to messages are read as messages.

  \<^bold>\<open>Not modelled.\<close>
  \<^item> \<open>Transact\<close> takes methods of a connection and \<open>AwaitUnlocked\<close> as single steps on streams that end; their waiting is
    in \<open>Conn_Wait\<close> and \<open>Key_Wait\<close>, and the two views are not combined. Time, and deferred calls of a panicking goroutine.
  \<^item> The program as a whole: \<^verbatim>\<open>main.go\<close> calls a function that is not in the repository, and nothing there passes \<open>Transact\<close> to the
    accept loop, so the two are separate and \<open>Serve\<close> is modelled for any handler.
  \<^item> Allocations the machine cannot make, and arguments the database library refuses (empty, reserved or oversized keys).
  \<^item> \<^verbatim>\<open>Snapshot\<close> in \<^verbatim>\<open>appender.go\<close>, whose body breaks off in the middle of an expression.
  \<^item> Logging; \<^verbatim>\<open>kafka/producer.go\<close>, whose code is commented out; files with only comments, aliases or a package clause.
\<close>

end
